(* ===== verification/GoPrelude.thy ===== *)
theory GoPrelude
  imports Main "HOL-Library.Word" "HOL-Library.Sublist"
begin

text \<open>
  What every part of the model shares: the outcomes of a Go call (a value, a panic, or a
  goroutine that blocks for ever on a held mutex), explicit state passing with early exits,
  error values, the iteration order of maps, decimal printing and the few functions of the
  packages \<open>strings\<close> and \<open>strconv\<close> that the program calls, and the constants of
  \<open>pkg/constants.go\<close>.
\<close>

named_theorems go_ops \<open>definitions of the operations, unfolded to compute a call\<close>
named_theorems go_frames \<open>fields and entries that an operation leaves alone\<close>

section \<open>Outcomes and state passing\<close>

text \<open>
  A Go call returns, panics, or never returns because it waits for a mutex nobody will release.
  The state that the call leaves behind matters in each case (a handler that panics is recovered
  by \<open>net/http\<close>, the process goes on), so it is returned beside the outcome.
\<close>

datatype 'a outcome = Ret 'a | Panic string | Blocked

type_synonym ('s, 'a) go = "'s \<Rightarrow> 'a outcome \<times> 's"

definition go_return :: "'a \<Rightarrow> ('s, 'a) go" where
  "go_return x = (\<lambda>s. (Ret x, s))"

definition go_panic :: "string \<Rightarrow> ('s, 'a) go" where
  "go_panic msg = (\<lambda>s. (Panic msg, s))"

definition go_get :: "('s \<Rightarrow> 'a) \<Rightarrow> ('s, 'a) go" where
  "go_get f = (\<lambda>s. (Ret (f s), s))"

definition go_modify :: "('s \<Rightarrow> 's) \<Rightarrow> ('s, unit) go" where
  "go_modify f = (\<lambda>s. (Ret (), f s))"

definition go_bind :: "('s, 'a) go \<Rightarrow> ('a \<Rightarrow> ('s, 'b) go) \<Rightarrow> ('s, 'b) go" where
  "go_bind m f = (\<lambda>s. case m s of
      (Ret x, s') \<Rightarrow> f x s'
    | (Panic msg, s') \<Rightarrow> (Panic msg, s')
    | (Blocked, s') \<Rightarrow> (Blocked, s'))"

text \<open>The state after a deferred call that runs on every exit of a call that ends.\<close>

definition go_defer :: "('s \<Rightarrow> 's) \<Rightarrow> ('s, 'a) go \<Rightarrow> ('s, 'a) go" where
  "go_defer d m = (\<lambda>s. case m s of
      (Ret x, s') \<Rightarrow> (Ret x, d s')
    | (Panic msg, s') \<Rightarrow> (Panic msg, d s')
    | (Blocked, s') \<Rightarrow> (Blocked, s'))"

lemmas go_monad = go_return_def go_panic_def go_get_def go_modify_def

lemma go_bind_Ret [simp]: "m s = (Ret x, s') \<Longrightarrow> go_bind m f s = f x s'"
  by (simp add: go_bind_def)

lemma go_bind_Panic [simp]: "m s = (Panic msg, s') \<Longrightarrow> go_bind m f s = (Panic msg, s')"
  by (simp add: go_bind_def)

lemma go_bind_Blocked [simp]: "m s = (Blocked, s') \<Longrightarrow> go_bind m f s = (Blocked, s')"
  by (simp add: go_bind_def)

lemma go_bind_assoc: "go_bind (go_bind m f) g = go_bind m (\<lambda>x. go_bind (f x) g)"
  by (rule ext) (simp add: go_bind_def split: prod.splits outcome.splits)

lemma go_bind_RetE:
  assumes "go_bind m f s = (Ret y, s'')"
  obtains x s' where "m s = (Ret x, s')" and "f x s' = (Ret y, s'')"
  using assms by (auto simp: go_bind_def split: prod.splits outcome.splits)

section \<open>Error values\<close>

text \<open>
  An error the code builds with \<open>fmt.Errorf\<close>, one that appends the text of another error
  (verbs \<open>%w\<close> and \<open>%v\<close>), and one returned by a library.
\<close>

datatype go_error = Errorf string | Wrapf string go_error | LibError string

fun Error :: "go_error \<Rightarrow> string" where
  "Error (Errorf msg) = msg"
| "Error (Wrapf msg e) = msg @ Error e"
| "Error (LibError msg) = msg"

section \<open>Maps and their iteration order\<close>

text \<open>
  A Go \<open>map\<close> or \<open>sync.Map\<close> is a partial function. The order in which \<open>range\<close>
  and \<open>Range\<close> visit its keys is not specified: an operation that iterates takes the order
  as an argument, and the order visits every key once.
\<close>

definition range_order :: "('k \<rightharpoonup> 'v) \<Rightarrow> 'k list \<Rightarrow> bool" where
  "range_order m ks \<longleftrightarrow> distinct ks \<and> set ks = dom m"

lemma range_orderD:
  assumes "range_order m ks"
  shows "distinct ks" and "set ks = dom m"
  using assms by (simp_all add: range_order_def)

lemma range_order_finite: "range_order m ks \<Longrightarrow> finite (dom m)"
  by (metis List.finite_set range_order_def)

lemma range_order_ex: "finite (dom m) \<Longrightarrow> \<exists>ks. range_order m ks"
  by (metis finite_distinct_list range_order_def)

lemma range_order_length: "range_order m ks \<Longrightarrow> length ks = card (dom m)"
  by (metis distinct_card range_order_def)

lemma range_order_count:
  assumes "range_order m ks"
  shows "length (filter P ks) = card {k \<in> dom m. P k}"
proof -
  have "length (filter P ks) = card (set (filter P ks))"
    using distinct_card[of "filter P ks"] range_orderD(1)[OF assms] by simp
  also have "set (filter P ks) = {k \<in> dom m. P k}"
    using range_orderD(2)[OF assms] by auto
  finally show ?thesis .
qed

text \<open>Reading a Go map: the zero value for an absent key.\<close>

definition go_lookup :: "(string \<rightharpoonup> string) \<Rightarrow> string \<Rightarrow> string" where
  "go_lookup mp k = (case mp k of Some v \<Rightarrow> v | None \<Rightarrow> '''')"

text \<open>The sum of a quantity over the values of a finite map.\<close>

definition map_total :: "('v \<Rightarrow> nat) \<Rightarrow> ('k \<rightharpoonup> 'v) \<Rightarrow> nat" where
  "map_total f m = (\<Sum>k\<in>dom m. f (the (m k)))"

lemma map_total_empty [simp]: "map_total f Map.empty = 0"
  by (simp add: map_total_def)

lemma map_total_remove:
  assumes "finite (dom m)"
  shows "map_total f m = map_total f (m(k := None)) + (case m k of None \<Rightarrow> 0 | Some v \<Rightarrow> f v)"
proof (cases "m k")
  case None
  then have "m(k := None) = m" by auto
  with None show ?thesis by simp
next
  case (Some v)
  then have "k \<in> dom m" by auto
  from sum.remove[OF assms this, of "\<lambda>k. f (the (m k))"]
  have "map_total f m = f v + (\<Sum>j\<in>dom m - {k}. f (the (m j)))"
    by (simp add: map_total_def Some)
  also have "(\<Sum>j\<in>dom m - {k}. f (the (m j))) = map_total f (m(k := None))"
    unfolding map_total_def by (rule sum.cong) auto
  finally show ?thesis by (simp add: Some)
qed

lemma map_total_update:
  assumes "finite (dom m)"
  shows "map_total f (m(k \<mapsto> v)) = map_total f (m(k := None)) + f v"
proof -
  have "finite (dom (m(k \<mapsto> v)))" using assms by simp
  from map_total_remove[OF this, of f k] show ?thesis by simp
qed

section \<open>Strings\<close>

text \<open>The verb \<open>%d\<close> on a natural number.\<close>

definition digit_char :: "nat \<Rightarrow> char" where
  "digit_char d = ''0123456789'' ! (d mod 10)"

fun itoa :: "nat \<Rightarrow> string" where
  "itoa n = (if n < 10 then [digit_char n] else itoa (n div 10) @ [digit_char (n mod 10)])"

declare itoa.simps [simp del]

lemma itoa_nonempty: "itoa n \<noteq> []"
  by (subst itoa.simps) simp

lemma itoa_lt: "n < 10 \<Longrightarrow> itoa n = [digit_char n]"
  by (subst itoa.simps) simp

lemma itoa_ge: "\<not> n < 10 \<Longrightarrow> itoa n = itoa (n div 10) @ [digit_char (n mod 10)]"
  by (subst itoa.simps) simp

text \<open>\<open>strings.Split\<close> with a separator of one byte.\<close>

fun split_on :: "char \<Rightarrow> string \<Rightarrow> string list" where
  "split_on c [] = [[]]"
| "split_on c (x # xs) =
     (if x = c then [] # split_on c xs
      else case split_on c xs of [] \<Rightarrow> [[x]] | p # ps \<Rightarrow> (x # p) # ps)"

lemma split_on_nonempty [simp]: "split_on c xs \<noteq> []"
  by (cases xs) (auto split: list.splits)

lemma split_on_no_sep: "c \<notin> set xs \<Longrightarrow> split_on c xs = [xs]"
  by (induction xs) auto

lemma split_on_append: "c \<notin> set xs \<Longrightarrow> split_on c (xs @ c # ys) = xs # split_on c ys"
  by (induction xs) auto

lemma hd_split_on: "hd (split_on c xs) = takeWhile (\<lambda>x. x \<noteq> c) xs"
  by (induction xs) (auto split: list.splits)

lemma split_on_parts: "p \<in> set (split_on c xs) \<Longrightarrow> c \<notin> set p"
proof (induction xs arbitrary: p)
  case Nil
  then show ?case by simp
next
  case (Cons x xs)
  then show ?case by (cases "split_on c xs") (auto split: if_splits)
qed

text \<open>\<open>strings.Contains\<close> with a pattern of one byte, \<open>strings.TrimSuffix\<close>.\<close>

definition contains_char :: "char \<Rightarrow> string \<Rightarrow> bool" where
  "contains_char c s \<longleftrightarrow> c \<in> set s"

definition has_suffix :: "string \<Rightarrow> string \<Rightarrow> bool" where
  "has_suffix s suf \<longleftrightarrow> length suf \<le> length s \<and> drop (length s - length suf) s = suf"

definition trim_suffix :: "string \<Rightarrow> string \<Rightarrow> string" where
  "trim_suffix s suf = (if has_suffix s suf then take (length s - length suf) s else s)"

lemma has_suffix_append [simp]: "has_suffix (s @ suf) suf"
  by (simp add: has_suffix_def)

lemma trim_suffix_append [simp]: "trim_suffix (s @ suf) suf = s"
  by (simp add: trim_suffix_def)

lemma has_suffix_iff: "has_suffix s suf \<longleftrightarrow> (\<exists>p. s = p @ suf)"
proof
  assume "has_suffix s suf"
  then have "s = take (length s - length suf) s @ suf"
    by (metis append_take_drop_id has_suffix_def)
  then show "\<exists>p. s = p @ suf" ..
qed auto

section \<open>The constants of the package\<close>

definition DefaultFunctionNamespace :: string where
  "DefaultFunctionNamespace = ''openfaas-fn''"

definition NamespaceLabel :: string where
  "NamespaceLabel = ''openfaas''"

definition OCIDirectory :: string where
  "OCIDirectory = ''/tmp/kraftkit/oci''"

definition MachineDirectory :: string where
  "MachineDirectory = ''/tmp/kraftkit/machines''"

definition WatchdogPort :: nat where
  "WatchdogPort = 8123"

definition GatewayPort :: nat where
  "GatewayPort = 80"

text \<open>Printed once, so that no other proof runs the digit recursion.\<close>

lemma itoa_WatchdogPort [simp]: "itoa WatchdogPort = ''8123''"
  by (simp add: WatchdogPort_def itoa_ge itoa_lt digit_char_def)

lemma itoa_GatewayPort [simp]: "itoa GatewayPort = ''80''"
  by (simp add: GatewayPort_def itoa_ge itoa_lt digit_char_def)

end
