(* ===== verification/LoadBalancer.thy ===== *)
theory LoadBalancer
  imports GoPrelude
begin

text \<open>
  The load balancers of \<open>pkg/network/internal\<close>: the interface \<open>LoadBalancer\<close>
  (\<open>loadbalancer.go\<close>) as a record of its methods, its one implementation
  \<open>RandomLoadBalancer\<close> (\<open>random.go\<close>), the registry of constructors, and the contract
  the network controller relies on, as the locale \<open>load_balancer\<close>, which
  \<open>RandomLoadBalancer\<close> is shown to satisfy.
\<close>

section \<open>The interface\<close>

type_synonym IP = string

text \<open>
  One field per method. A method may panic, so it has an outcome; a method that returns a new
  balancer returns it in the sum. \<open>NextInstance\<close> takes the random number it would draw from
  the global generator of \<open>math/rand\<close>.
\<close>

record 'l LoadBalancer =
  AddInstance :: "IP \<Rightarrow> 'l \<Rightarrow> (go_error + 'l) outcome"
  DeleteInstance :: "IP \<Rightarrow> 'l \<Rightarrow> (go_error + 'l) outcome"
  NextInstance :: "nat \<Rightarrow> 'l \<Rightarrow> (go_error + IP) outcome"
  GetIPs :: "'l \<Rightarrow> IP list"
  Size :: "'l \<Rightarrow> 64 word"

type_synonym LoadBalancerType = string

text \<open>A constructor takes arguments of any type; none of them looks at its arguments.\<close>

type_synonym 'l LoadBalancerConstructor = "string list \<Rightarrow> go_error + 'l"

definition RegisterLoadBalancer ::
  "LoadBalancerType \<Rightarrow> 'l LoadBalancerConstructor \<Rightarrow>
   (LoadBalancerType \<rightharpoonup> 'l LoadBalancerConstructor) \<Rightarrow>
   (LoadBalancerType \<rightharpoonup> 'l LoadBalancerConstructor)" where
  "RegisterLoadBalancer lbType lbConstructor loadBalancers = loadBalancers(lbType \<mapsto> lbConstructor)"

section \<open>The random load balancer\<close>

record RandomLoadBalancer =
  rlb_size :: "64 word"
  rlb_ips :: "IP list"

definition NewRandomLoadBalancer :: "RandomLoadBalancer LoadBalancerConstructor" where
  "NewRandomLoadBalancer opts = Inr \<lparr>rlb_size = 0, rlb_ips = []\<rparr>"

definition rlb_AddInstance ::
  "IP \<Rightarrow> RandomLoadBalancer \<Rightarrow> (go_error + RandomLoadBalancer) outcome" where
  "rlb_AddInstance ip rlb =
     Ret (Inr (rlb\<lparr>rlb_size := rlb_size rlb + 1, rlb_ips := rlb_ips rlb @ [ip]\<rparr>))"

text \<open>
  The loop of \<open>DeleteInstance\<close>: \<open>newIpList\<close> starts with one empty string per
  remaining entry, and a write beyond its end panics.
\<close>

fun rlb_copy :: "IP \<Rightarrow> IP list \<Rightarrow> nat \<Rightarrow> IP list \<Rightarrow> IP list outcome" where
  "rlb_copy ip [] index newIpList = Ret newIpList"
| "rlb_copy ip (currIp # rest) index newIpList =
     (if ip \<noteq> currIp
      then (if index < length newIpList
            then rlb_copy ip rest (index + 1) (newIpList[index := currIp])
            else Panic ''index out of range'')
      else rlb_copy ip rest index newIpList)"

definition rlb_DeleteInstance ::
  "IP \<Rightarrow> RandomLoadBalancer \<Rightarrow> (go_error + RandomLoadBalancer) outcome" where
  "rlb_DeleteInstance ip rlb =
     (if rlb_size rlb = 0 then Ret (Inr rlb)
      else case rlb_copy ip (rlb_ips rlb) 0 (replicate (unat (rlb_size rlb - 1)) '''') of
             Ret newIpList \<Rightarrow> Ret (Inr \<lparr>rlb_size = rlb_size rlb - 1, rlb_ips = newIpList\<rparr>)
           | Panic msg \<Rightarrow> Panic msg
           | Blocked \<Rightarrow> Blocked)"

text \<open>
  \<open>rand.Intn\<close> panics on an argument that is not positive; the conversion \<open>int(size)\<close>
  reads the 64 bits as a signed number. On a positive \<open>n\<close> it returns a number below \<open>n\<close>,
  here the residue of the raw draw.
\<close>

definition rand_Intn :: "nat \<Rightarrow> int \<Rightarrow> nat outcome" where
  "rand_Intn draw n =
     (if n \<le> 0 then Panic ''invalid argument to Intn'' else Ret (draw mod nat n))"

definition rlb_NextInstance :: "nat \<Rightarrow> RandomLoadBalancer \<Rightarrow> (go_error + IP) outcome" where
  "rlb_NextInstance draw rlb =
     (if rlb_size rlb = 0 then Ret (Inl (Errorf ''no ips for instance''))
      else case rand_Intn draw (sint (rlb_size rlb)) of
             Ret index \<Rightarrow> (if index < length (rlb_ips rlb) then Ret (Inr (rlb_ips rlb ! index))
                          else Panic ''index out of range'')
           | Panic msg \<Rightarrow> Panic msg
           | Blocked \<Rightarrow> Blocked)"

definition rlb_GetIPs :: "RandomLoadBalancer \<Rightarrow> IP list" where
  "rlb_GetIPs rlb = rlb_ips rlb"

definition rlb_Size :: "RandomLoadBalancer \<Rightarrow> 64 word" where
  "rlb_Size rlb = rlb_size rlb"

text \<open>The method table of \<open>*RandomLoadBalancer\<close>, and the registry after \<open>init\<close>.\<close>

definition randomLB :: "RandomLoadBalancer LoadBalancer" where
  "randomLB = \<lparr>AddInstance = rlb_AddInstance, DeleteInstance = rlb_DeleteInstance,
     NextInstance = rlb_NextInstance, GetIPs = rlb_GetIPs, Size = rlb_Size\<rparr>"

definition loadBalancers :: "LoadBalancerType \<rightharpoonup> RandomLoadBalancer LoadBalancerConstructor" where
  "loadBalancers = RegisterLoadBalancer ''random'' NewRandomLoadBalancer Map.empty"

lemmas rlb_defs [go_ops] = rlb_AddInstance_def rlb_DeleteInstance_def rlb_NextInstance_def
  rlb_GetIPs_def rlb_Size_def NewRandomLoadBalancer_def rand_Intn_def

section \<open>What deletion computes\<close>

lemma rlb_copy_result:
  "rlb_copy ip xs index new =
     (let ys = filter (\<lambda>x. x \<noteq> ip) xs
      in if index + length ys \<le> max index (length new)
         then Ret (take index new @ ys @ drop (index + length ys) new)
         else Panic ''index out of range'')"
proof (induction ip xs index new rule: rlb_copy.induct)
  case (1 ip index new)
  then show ?case by simp
next
  case (2 ip x xs index new)
  show ?case
  proof (cases "ip \<noteq> x \<and> index < length new")
    case True
    then have "take (index + 1) (new[index := x]) = take index new @ [x]"
      by (simp add: take_Suc_conv_app_nth)
    with True 2 show ?thesis by (auto simp: Let_def)
  next
    case False
    with 2 show ?thesis by (auto simp: Let_def)
  qed
qed

text \<open>The representation invariant: the counter is the length of the list.\<close>

definition rlb_inv :: "RandomLoadBalancer \<Rightarrow> bool" where
  "rlb_inv rlb \<longleftrightarrow> unat (rlb_size rlb) = length (rlb_ips rlb)"

lemma rlb_inv_size_0: "rlb_inv rlb \<Longrightarrow> rlb_size rlb = 0 \<longleftrightarrow> rlb_ips rlb = []"
  by (auto simp: rlb_inv_def unat_eq_zero[symmetric])

lemma rlb_inv_pred: "rlb_inv rlb \<Longrightarrow> rlb_ips rlb \<noteq> [] \<Longrightarrow>
    unat (rlb_size rlb - 1) = length (rlb_ips rlb) - 1"
  by (metis rlb_inv_def rlb_inv_size_0 unat_minus_one)

lemma count_list_filter_length:
  "length (filter (\<lambda>x. x \<noteq> ip) xs) = length xs - count_list xs ip"
  by (induction xs) (auto simp: Suc_diff_le count_le_length)

lemma distinct_count_list_1: "distinct xs \<Longrightarrow> x \<in> set xs \<Longrightarrow> count_list xs x = 1"
  by (induction xs) auto

lemma rlb_DeleteInstance_empty:
  "rlb_size rlb = 0 \<Longrightarrow> rlb_DeleteInstance ip rlb = Ret (Inr rlb)"
  by (simp add: rlb_DeleteInstance_def)

lemma rlb_DeleteInstance_absent:
  assumes "rlb_inv rlb" and "rlb_ips rlb \<noteq> []" and "ip \<notin> set (rlb_ips rlb)"
  shows "rlb_DeleteInstance ip rlb = Panic ''index out of range''"
proof -
  from assms(3) have "filter (\<lambda>x. x \<noteq> ip) (rlb_ips rlb) = rlb_ips rlb"
    by (auto intro: filter_True)
  then show ?thesis
    using assms rlb_inv_size_0[of rlb] rlb_inv_pred[of rlb]
    by (cases "rlb_ips rlb") (simp_all add: rlb_DeleteInstance_def rlb_copy_result Let_def)
qed

lemma rlb_DeleteInstance_present:
  assumes inv: "rlb_inv rlb" and mem: "ip \<in> set (rlb_ips rlb)"
  shows "rlb_DeleteInstance ip rlb = Ret (Inr \<lparr>rlb_size = rlb_size rlb - 1,
     rlb_ips = filter (\<lambda>x. x \<noteq> ip) (rlb_ips rlb)
       @ replicate (count_list (rlb_ips rlb) ip - 1) ''''\<rparr>)"
proof -
  let ?xs = "rlb_ips rlb"
  have ne: "?xs \<noteq> []" using mem by auto
  have c: "0 < count_list ?xs ip"
    using mem by (metis count_list_0_iff gr0I)
  have le: "count_list ?xs ip \<le> length ?xs" by (rule count_le_length)
  have sub: "length ?xs - 1 - (length ?xs - count_list ?xs ip) = count_list ?xs ip - 1"
    using c le by arith
  have fits: "length ?xs - count_list ?xs ip \<le> length ?xs - 1"
    using c by arith
  show ?thesis
    using inv ne fits sub rlb_inv_size_0[OF inv] rlb_inv_pred[OF inv ne]
    by (simp add: rlb_DeleteInstance_def rlb_copy_result Let_def count_list_filter_length)
qed

section \<open>The contract of a load balancer\<close>

text \<open>
  What the network controller relies on: after \<open>AddInstance\<close> the address is listed last;
  deleting an address listed once removes it and keeps the others in order; \<open>NextInstance\<close>
  returns a listed address. The list must not outgrow the 64-bit counter, and, for
  \<open>NextInstance\<close>, its signed reading.
\<close>

locale load_balancer =
  fixes lb :: "'l LoadBalancer"
    and lb_new :: "'l LoadBalancerConstructor"
    and lb_inv :: "'l \<Rightarrow> bool"
  assumes new_lb: "\<exists>l. lb_new opts = Inr l \<and> lb_inv l \<and> GetIPs lb l = []"
    and add_lb: "lb_inv l \<Longrightarrow> Suc (length (GetIPs lb l)) < 2 ^ 64 \<Longrightarrow>
      \<exists>l'. AddInstance lb ip l = Ret (Inr l') \<and> lb_inv l' \<and> GetIPs lb l' = GetIPs lb l @ [ip]"
    and delete_lb: "lb_inv l \<Longrightarrow> count_list (GetIPs lb l) ip = 1 \<Longrightarrow>
      \<exists>l'. DeleteInstance lb ip l = Ret (Inr l') \<and> lb_inv l' \<and>
           GetIPs lb l' = filter (\<lambda>x. x \<noteq> ip) (GetIPs lb l)"
    and next_lb_empty: "lb_inv l \<Longrightarrow> GetIPs lb l = [] \<Longrightarrow>
      \<exists>e. NextInstance lb draw l = Ret (Inl e)"
    and next_lb: "lb_inv l \<Longrightarrow> GetIPs lb l \<noteq> [] \<Longrightarrow> length (GetIPs lb l) < 2 ^ 63 \<Longrightarrow>
      NextInstance lb draw l = Ret (Inr (GetIPs lb l ! (draw mod length (GetIPs lb l))))"
    and size_lb: "lb_inv l \<Longrightarrow> unat (Size lb l) = length (GetIPs lb l)"
begin

lemma next_lb_mem:
  assumes "lb_inv l" and "length (GetIPs lb l) < 2 ^ 63"
    and "NextInstance lb draw l = Ret (Inr ip)"
  shows "ip \<in> set (GetIPs lb l)"
proof (cases "GetIPs lb l = []")
  case True
  with assms next_lb_empty[of l draw] show ?thesis by auto
next
  case False
  with assms next_lb[of l draw] show ?thesis by auto
qed

lemma next_lb_returns:
  assumes "lb_inv l" and "length (GetIPs lb l) < 2 ^ 63"
  shows "\<exists>r. NextInstance lb draw l = Ret r"
  using assms next_lb_empty[of l draw] next_lb[of l draw] by (cases "GetIPs lb l = []") auto

text \<open>Registering an address that was not listed and deleting it again restores the list.\<close>

lemma add_delete_lb:
  assumes "lb_inv l" and "ip \<notin> set (GetIPs lb l)" and "Suc (length (GetIPs lb l)) < 2 ^ 64"
    and "AddInstance lb ip l = Ret (Inr l')"
  shows "\<exists>l''. DeleteInstance lb ip l' = Ret (Inr l'') \<and> GetIPs lb l'' = GetIPs lb l"
proof -
  have l': "lb_inv l'" "GetIPs lb l' = GetIPs lb l @ [ip]"
    using add_lb[OF assms(1,3), of ip] assms(4) by auto
  have "count_list (GetIPs lb l') ip = 1"
    using assms(2) by (simp add: l'(2))
  from delete_lb[OF l'(1) this] show ?thesis
    using assms(2) by (auto simp: l'(2) intro!: filter_True)
qed

end

lemma sint_eq_unat:
  assumes "unat (w :: 64 word) < 2 ^ 63"
  shows "sint w = int (unat w)"
proof -
  have "int (unat w) < 2 ^ 63"
    using assms by (metis of_nat_less_iff of_nat_numeral of_nat_power)
  moreover have "- (2 ^ 63) \<le> int (unat w)"
    by (rule order.trans[of _ 0]) simp_all
  ultimately have "signed_take_bit 63 (int (unat w)) = int (unat w)"
    by (intro signed_take_bit_int_eq_self)
  moreover have "sint w = signed_take_bit 63 (uint w)"
    by (simp add: sint_uint)
  ultimately show ?thesis by (simp only: uint_nat)
qed

interpretation rlb: load_balancer randomLB NewRandomLoadBalancer rlb_inv
proof unfold_locales
  show "\<exists>l. NewRandomLoadBalancer opts = Inr l \<and> rlb_inv l \<and> GetIPs randomLB l = []" for opts
    by (simp add: NewRandomLoadBalancer_def rlb_inv_def randomLB_def rlb_GetIPs_def)
next
  fix l ip
  assume "rlb_inv l" and "Suc (length (GetIPs randomLB l)) < 2 ^ 64"
  then show "\<exists>l'. AddInstance randomLB ip l = Ret (Inr l') \<and> rlb_inv l' \<and>
      GetIPs randomLB l' = GetIPs randomLB l @ [ip]"
    by (simp add: randomLB_def rlb_AddInstance_def rlb_GetIPs_def rlb_inv_def unat_word_ariths)
next
  fix l ip
  assume a: "rlb_inv l" "count_list (GetIPs randomLB l) ip = 1"
  then have mem: "ip \<in> set (rlb_ips l)"
    by (cases "ip \<in> set (rlb_ips l)") (simp_all add: randomLB_def rlb_GetIPs_def)
  from mem have "unat (rlb_size l - 1) = length (rlb_ips l) - 1"
    using a(1) rlb_inv_pred[of l] by force
  with mem a rlb_DeleteInstance_present[of l ip] show "\<exists>l'. DeleteInstance randomLB ip l = Ret (Inr l') \<and>
      rlb_inv l' \<and> GetIPs randomLB l' = filter (\<lambda>x. x \<noteq> ip) (GetIPs randomLB l)"
    by (auto simp: randomLB_def rlb_GetIPs_def rlb_inv_def count_list_filter_length)
next
  fix l draw
  assume "rlb_inv l" "GetIPs randomLB l = []"
  then show "\<exists>e. NextInstance randomLB draw l = Ret (Inl e)"
    by (simp add: randomLB_def rlb_GetIPs_def rlb_NextInstance_def rlb_inv_size_0)
next
  fix l draw
  assume a: "rlb_inv l" "GetIPs randomLB l \<noteq> []" "length (GetIPs randomLB l) < 2 ^ 63"
  then have "sint (rlb_size l) = int (length (rlb_ips l))"
    using sint_eq_unat[of "rlb_size l"] by (simp add: rlb_inv_def randomLB_def rlb_GetIPs_def)
  with a show "NextInstance randomLB draw l =
      Ret (Inr (GetIPs randomLB l ! (draw mod length (GetIPs randomLB l))))"
    by (simp add: randomLB_def rlb_GetIPs_def rlb_NextInstance_def rlb_inv_size_0 rand_Intn_def)
next
  fix l
  assume "rlb_inv l"
  then show "unat (Size randomLB l) = length (GetIPs randomLB l)"
    by (simp add: randomLB_def rlb_GetIPs_def rlb_Size_def rlb_inv_def)
qed

section \<open>Properties\<close>

text \<open>
  C10: \<open>DeleteInstance\<close> on every branch. An empty balancer is returned as it is; deleting an
  address that is not listed from a balancer that lists another one panics (the copy runs past the
  shorter slice); deleting a listed address keeps the other addresses in their order, and, where the
  address was listed more than once, pads the list with empty addresses.
\<close>

theorem DeleteInstance_branches:
  assumes "rlb_inv rlb"
  shows "rlb_DeleteInstance ip rlb =
    (if rlb_ips rlb = [] then Ret (Inr rlb)
     else if ip \<notin> set (rlb_ips rlb) then Panic ''index out of range''
     else Ret (Inr \<lparr>rlb_size = rlb_size rlb - 1,
            rlb_ips = filter (\<lambda>x. x \<noteq> ip) (rlb_ips rlb)
              @ replicate (count_list (rlb_ips rlb) ip - 1) ''''\<rparr>))"
  using assms rlb_DeleteInstance_empty rlb_DeleteInstance_absent rlb_DeleteInstance_present
  by (simp add: rlb_inv_size_0)

theorem DeleteInstance_branches_witness:
  "rlb_DeleteInstance ''10.0.0.2'' \<lparr>rlb_size = 2, rlb_ips = [''10.0.0.1'', ''10.0.0.2'']\<rparr>
     = Ret (Inr \<lparr>rlb_size = 1, rlb_ips = [''10.0.0.1'']\<rparr>)"
proof -
  have inv: "rlb_inv \<lparr>rlb_size = 2, rlb_ips = [''10.0.0.1'', ''10.0.0.2'']\<rparr>"
    by (simp add: rlb_inv_def)
  show ?thesis using DeleteInstance_branches[OF inv, of "''10.0.0.2''"] by simp
qed

end
