(* ===== verification/NetworkApi.thy ===== *)
theory NetworkApi
  imports LoadBalancer
begin

text \<open>
  The interface \<open>NetworkController\<close> of \<open>pkg/api/network/controller.go\<close> as a record of
  its methods over the state of the controller, what its implementations use of the outside
  world, and the contract that the machine store and the handlers rely on, as the locale
  \<open>network_controller\<close>. The method \<open>RunHealthChecks\<close>, which never returns, is not a
  field: it is modelled with the implementation that has one.
\<close>

type_synonym URL = string

record 'n NetworkController =
  AddServiceIP :: "string \<Rightarrow> IP \<Rightarrow> ('n, go_error option) go"
  DeleteServiceIP :: "string \<Rightarrow> IP \<Rightarrow> ('n, go_error option) go"
  DeleteService :: "string \<Rightarrow> ('n, go_error option) go"
  ResolveServiceEndpoint :: "string \<Rightarrow> ('n, go_error + URL) go"
  AvailableIPs :: "string \<Rightarrow> 'n \<Rightarrow> go_error + 64 word"

text \<open>
  The outside world of the controllers: the status of a GET request (\<open>None\<close> when the request
  fails), the result of \<open>url.Parse\<close>, and the numbers that the generator of \<open>math/rand\<close>
  produces one after the other.
\<close>

record net_env =
  http_Get :: "string \<Rightarrow> nat option"
  url_Parse :: "string \<Rightarrow> go_error + URL"
  rand_draw :: "nat \<Rightarrow> nat"

text \<open>
  The contract, over the addresses registered for a service (\<open>pool\<close>; empty for an unknown
  service). An address is registered once in the whole controller. Registering appends to the pool
  of that service only, whatever error is reported; deregistering a registered address removes it
  from the pool of that service only; resolving changes no pool, and gives a URL only for a service
  with a registered address; no more addresses are available than are registered.
\<close>

locale network_controller =
  fixes nc :: "'n NetworkController"
    and pool :: "'n \<Rightarrow> string \<Rightarrow> IP list"
    and nc_inv :: "'n \<Rightarrow> bool"
    and plain :: "IP \<Rightarrow> bool"
  assumes pool_distinct: "nc_inv s \<Longrightarrow> distinct (pool s svc)"
    and pool_disjoint: "nc_inv s \<Longrightarrow> svc \<noteq> svc' \<Longrightarrow> set (pool s svc) \<inter> set (pool s svc') = {}"
    and add_pool: "nc_inv s \<Longrightarrow> plain ip \<Longrightarrow> (\<forall>v. ip \<notin> set (pool s v)) \<Longrightarrow>
      Suc (length (pool s svc)) < 2 ^ 63 \<Longrightarrow>
      \<exists>e s'. AddServiceIP nc svc ip s = (Ret e, s') \<and> nc_inv s' \<and>
             pool s' = (pool s)(svc := pool s svc @ [ip])"
    and delete_pool: "nc_inv s \<Longrightarrow> plain ip \<Longrightarrow> ip \<in> set (pool s svc) \<Longrightarrow>
      \<exists>e s'. DeleteServiceIP nc svc ip s = (Ret e, s') \<and> nc_inv s' \<and>
             pool s' = (pool s)(svc := filter (\<lambda>x. x \<noteq> ip) (pool s svc))"
    and resolve_pool: "nc_inv s \<Longrightarrow> ResolveServiceEndpoint nc svc s = (r, s') \<Longrightarrow>
      nc_inv s' \<and> pool s' = pool s"
    and resolve_returns: "nc_inv s \<Longrightarrow> \<exists>r s'. ResolveServiceEndpoint nc svc s = (Ret r, s')"
    and resolve_registered: "nc_inv s \<Longrightarrow>
      ResolveServiceEndpoint nc svc s = (Ret (Inr u), s') \<Longrightarrow> pool s svc \<noteq> []"
    and available_le: "nc_inv s \<Longrightarrow> length (pool s svc) < 2 ^ 63 \<Longrightarrow>
      AvailableIPs nc svc s = Inr n \<Longrightarrow> unat n \<le> length (pool s svc)"
begin

text \<open>Registering an address and deregistering it again leaves every pool as it was.\<close>

lemma add_delete_pool:
  assumes "nc_inv s" and "plain ip" and fresh: "\<forall>v. ip \<notin> set (pool s v)"
    and "Suc (length (pool s svc)) < 2 ^ 63"
    and add: "AddServiceIP nc svc ip s = (Ret e, s')"
  shows "\<exists>e' s''. DeleteServiceIP nc svc ip s' = (Ret e', s'') \<and> nc_inv s'' \<and> pool s'' = pool s"
proof -
  have s': "nc_inv s'" "pool s' = (pool s)(svc := pool s svc @ [ip])"
    using add_pool[OF assms(1-4)] add by auto
  have "ip \<in> set (pool s' svc)" by (simp add: s'(2))
  from delete_pool[OF s'(1) assms(2) this] obtain e' s'' where
    d: "DeleteServiceIP nc svc ip s' = (Ret e', s'')" "nc_inv s''"
      "pool s'' = (pool s')(svc := filter (\<lambda>x. x \<noteq> ip) (pool s' svc))"
    by blast
  have "filter (\<lambda>x. x \<noteq> ip) (pool s svc) = pool s svc"
    using fresh by (auto intro: filter_True)
  with d show ?thesis by (auto simp: s'(2))
qed

text \<open>A service whose pool is empty cannot be resolved.\<close>

lemma resolve_empty:
  assumes "nc_inv s" and "pool s svc = []"
  shows "\<exists>e s'. ResolveServiceEndpoint nc svc s = (Ret (Inl e), s')"
proof -
  from resolve_returns[OF assms(1), of svc] obtain r s' where
    r: "ResolveServiceEndpoint nc svc s = (Ret r, s')" by blast
  with resolve_registered[OF assms(1), of svc] assms(2) show ?thesis by (cases r) auto
qed

end

end
