(* ===== verification/InternalController.thy ===== *)
theory InternalController
  imports NetworkApi
begin

text \<open>
  The controller of \<open>pkg/network/internal/controller.go\<close> and
  \<open>controller_options.go\<close>: a load balancer per service, a table of the last health check
  of each address, and a count of the registered addresses. The model is generic in the load
  balancer, as the code is; the lemmas hold for every balancer that keeps the contract
  \<open>load_balancer\<close>, and are applied to the random one.
\<close>

section \<open>State\<close>

text \<open>
  \<open>healthCheckTable\<close> is a \<open>sync.Map\<close>: its keys have any type. The code uses addresses as
  keys, except in \<open>DeleteService\<close>, which deletes the indices of a slice.
\<close>

datatype any_key = KeyIP IP | KeyInt nat

record 'l InternalNetworkContoller =
  instanceCount :: "64 word"
  healthCheckTable :: "any_key \<rightharpoonup> bool"
  instancesMap :: "string \<rightharpoonup> 'l"
  defaultLoadBalancer :: "'l LoadBalancerConstructor option"
  lbOpts :: "string list"
  randPos :: nat

text \<open>
  \<open>randPos\<close> counts the numbers drawn so far from the global generator. The zero value of the
  struct, and the arguments of the constructor: an option, or a value of another type.
\<close>

definition zeroController :: "'l InternalNetworkContoller" where
  "zeroController = \<lparr>instanceCount = 0, healthCheckTable = Map.empty, instancesMap = Map.empty,
     defaultLoadBalancer = None, lbOpts = [], randPos = 0\<rparr>"

datatype 'l nc_arg =
    NcOption "'l InternalNetworkContoller \<Rightarrow> go_error option \<times> 'l InternalNetworkContoller"
  | OtherArg string

definition WithLoadBalancer ::
  "(LoadBalancerType \<rightharpoonup> 'l LoadBalancerConstructor) \<Rightarrow> LoadBalancerType \<Rightarrow> 'l nc_arg" where
  "WithLoadBalancer registry loadbalancerType =
     NcOption (\<lambda>nm. (None, nm\<lparr>defaultLoadBalancer := registry loadbalancerType\<rparr>))"

fun apply_options ::
  "'l nc_arg list \<Rightarrow> 'l InternalNetworkContoller \<Rightarrow> go_error + 'l InternalNetworkContoller" where
  "apply_options [] nm = Inr nm"
| "apply_options (OtherArg txt # opts) nm =
     Inl (Errorf (''invalid InternalNetworkController option : '' @ txt))"
| "apply_options (NcOption ncOpt # opts) nm =
     (case ncOpt nm of (Some err, nm') \<Rightarrow> Inl err | (None, nm') \<Rightarrow> apply_options opts nm')"

definition NewInternalNetworkContoller ::
  "'l LoadBalancerConstructor \<Rightarrow> 'l nc_arg list \<Rightarrow> go_error + 'l InternalNetworkContoller" where
  "NewInternalNetworkContoller newRandom opts =
     (case apply_options opts zeroController of
        Inl err \<Rightarrow> Inl err
      | Inr nm \<Rightarrow>
          Inr ((if defaultLoadBalancer nm = None then nm\<lparr>defaultLoadBalancer := Some newRandom\<rparr>
                else nm)\<lparr>lbOpts := []\<rparr>))"

section \<open>Operations\<close>

definition checkHealth :: "net_env \<Rightarrow> IP \<Rightarrow> string \<Rightarrow> bool" where
  "checkHealth env ip healthPath =
     (let url = ip @ '':'' @ itoa WatchdogPort @ healthPath
      in case http_Get env (''http://'' @ url) of
           None \<Rightarrow> False
         | Some status \<Rightarrow> status = 200 \<or> status = 400)"

text \<open>The balancer of a service, made by the default constructor when there is none.\<close>

definition balancer_for ::
  "'l InternalNetworkContoller \<Rightarrow> string \<Rightarrow> (go_error + 'l) outcome" where
  "balancer_for n service =
     (case instancesMap n service of
        Some lb \<Rightarrow> Ret (Inr lb)
      | None \<Rightarrow> (case defaultLoadBalancer n of
                  None \<Rightarrow> Panic ''invalid memory address or nil pointer dereference''
                | Some construct \<Rightarrow> Ret (construct (lbOpts n))))"

definition int_AddServiceIP ::
  "net_env \<Rightarrow> 'l LoadBalancer \<Rightarrow> string \<Rightarrow> IP \<Rightarrow>
   ('l InternalNetworkContoller, go_error option) go" where
  "int_AddServiceIP env L service ip n =
     (case balancer_for n service of
        Panic msg \<Rightarrow> (Panic msg, n)
      | Blocked \<Rightarrow> (Blocked, n)
      | Ret (Inl err) \<Rightarrow> (Ret (Some err), n)
      | Ret (Inr lb) \<Rightarrow>
          (case AddInstance L ip lb of
             Panic msg \<Rightarrow> (Panic msg, n)
           | Blocked \<Rightarrow> (Blocked, n)
           | Ret (Inl err) \<Rightarrow> (Ret (Some err), n)
           | Ret (Inr updatedLb) \<Rightarrow>
               (Ret None,
                n\<lparr>healthCheckTable := (healthCheckTable n)(KeyIP ip \<mapsto> checkHealth env ip ''''),
                  instancesMap := (instancesMap n)(service \<mapsto> updatedLb),
                  instanceCount := instanceCount n + 1\<rparr>)))"

definition int_DeleteServiceIP ::
  "'l LoadBalancer \<Rightarrow> string \<Rightarrow> IP \<Rightarrow> ('l InternalNetworkContoller, go_error option) go" where
  "int_DeleteServiceIP L service ip n =
     (let finish = (\<lambda>n'. (Ret None,
            n'\<lparr>healthCheckTable := (healthCheckTable n')(KeyIP ip := None),
               instanceCount := instanceCount n' - 1\<rparr>))
      in case instancesMap n service of
           None \<Rightarrow> finish n
         | Some lb \<Rightarrow>
             (case DeleteInstance L ip lb of
                Panic msg \<Rightarrow> (Panic msg, n)
              | Blocked \<Rightarrow> (Blocked, n)
              | Ret (Inl err) \<Rightarrow> (Ret (Some err), n)
              | Ret (Inr updatedLb) \<Rightarrow>
                  finish (n\<lparr>instancesMap := (instancesMap n)(service \<mapsto> updatedLb)\<rparr>)))"

text \<open>
  The loop of \<open>DeleteService\<close> ranges over the slice with one variable, which is the index: the
  keys it deletes are integers.
\<close>

fun drop_indices :: "nat \<Rightarrow> IP list \<Rightarrow> 'l InternalNetworkContoller \<Rightarrow> 'l InternalNetworkContoller" where
  "drop_indices i [] n = n"
| "drop_indices i (ip # ips) n =
     drop_indices (Suc i) ips
       (n\<lparr>healthCheckTable := (healthCheckTable n)(KeyInt i := None),
          instanceCount := instanceCount n - 1\<rparr>)"

definition int_DeleteService ::
  "'l LoadBalancer \<Rightarrow> string \<Rightarrow> ('l InternalNetworkContoller, go_error option) go" where
  "int_DeleteService L service n =
     (let err = Some (Errorf (''service '' @ service @ '' not found''))
      in case instancesMap n service of
           Some lb \<Rightarrow>
             (Ret err, drop_indices 0 (GetIPs L lb)
                         (n\<lparr>instancesMap := (instancesMap n)(service := None)\<rparr>))
         | None \<Rightarrow> (Ret err, n))"

text \<open>
  \<open>ResolveServiceEndpoint\<close>: the balancer is loaded once, then the loop draws addresses until one
  is healthy, at most \<open>max (Size lb) 5\<close> times.
\<close>

function int_resolve_loop ::
  "net_env \<Rightarrow> 'l LoadBalancer \<Rightarrow> 'l \<Rightarrow> 64 word \<Rightarrow> nat \<Rightarrow>
   'l InternalNetworkContoller \<Rightarrow> (go_error + URL) outcome \<times> 'l InternalNetworkContoller" where
  "int_resolve_loop env L lb maxLen tries n =
     (if tries < unat maxLen \<or> tries < 5
      then (case NextInstance L (rand_draw env (randPos n)) lb of
              Panic msg \<Rightarrow> (Panic msg, n)
            | Blocked \<Rightarrow> (Blocked, n)
            | Ret (Inl err) \<Rightarrow> (Ret (Inl err), n)
            | Ret (Inr ip) \<Rightarrow>
                (let n' = n\<lparr>randPos := Suc (randPos n)\<rparr>
                 in if healthCheckTable n' (KeyIP ip) = Some True
                    then (Ret (url_Parse env (''http://'' @ ip @ '':'' @ itoa WatchdogPort)), n')
                    else int_resolve_loop env L lb maxLen (Suc tries) n'))
      else (Ret (Inl (Errorf ''healthy instance not found'')), n))"
  by pat_completeness auto
termination
  by (relation "measure (\<lambda>(env, L, lb, maxLen, tries, n). max (unat maxLen) 5 - tries)") auto

declare int_resolve_loop.simps [simp del]

definition int_ResolveServiceEndpoint ::
  "net_env \<Rightarrow> 'l LoadBalancer \<Rightarrow> string \<Rightarrow> ('l InternalNetworkContoller, go_error + URL) go" where
  "int_ResolveServiceEndpoint env L service n =
     (case instancesMap n service of
        None \<Rightarrow> (Ret (Inl (Errorf (''service not found: '' @ service))), n)
      | Some lb \<Rightarrow> int_resolve_loop env L lb (Size L lb) 0 n)"

fun count_healthy :: "(any_key \<rightharpoonup> bool) \<Rightarrow> IP list \<Rightarrow> 64 word \<Rightarrow> 64 word" where
  "count_healthy tbl [] count = count"
| "count_healthy tbl (ip # ips) count =
     count_healthy tbl ips (if tbl (KeyIP ip) = Some True then count + 1 else count)"

definition int_AvailableIPs ::
  "'l LoadBalancer \<Rightarrow> string \<Rightarrow> 'l InternalNetworkContoller \<Rightarrow> go_error + 64 word" where
  "int_AvailableIPs L service n =
     (case instancesMap n service of
        None \<Rightarrow> Inl (Errorf (''service '' @ service @ '' not found''))
      | Some lb \<Rightarrow> Inr (count_healthy (healthCheckTable n) (GetIPs L lb) 0))"

text \<open>The method table of \<open>*InternalNetworkContoller\<close>.\<close>

definition internalController ::
  "net_env \<Rightarrow> 'l LoadBalancer \<Rightarrow> 'l InternalNetworkContoller NetworkController" where
  "internalController env L =
     \<lparr>AddServiceIP = int_AddServiceIP env L, DeleteServiceIP = int_DeleteServiceIP L,
      DeleteService = int_DeleteService L,
      ResolveServiceEndpoint = int_ResolveServiceEndpoint env L,
      AvailableIPs = int_AvailableIPs L\<rparr>"

lemma internalController_sel [simp]:
  "AddServiceIP (internalController env L) = int_AddServiceIP env L"
  "DeleteServiceIP (internalController env L) = int_DeleteServiceIP L"
  "DeleteService (internalController env L) = int_DeleteService L"
  "ResolveServiceEndpoint (internalController env L) = int_ResolveServiceEndpoint env L"
  "AvailableIPs (internalController env L) = int_AvailableIPs L"
  by (simp_all add: internalController_def)

section \<open>The health check loop\<close>

text \<open>
  \<open>time.Duration(300) / time.Duration(n.instanceCount+1)\<close>: both operands are signed 64-bit
  numbers, the quotient is truncated, and a zero divisor panics.
\<close>

definition healthDelay :: "64 word \<Rightarrow> int outcome" where
  "healthDelay count =
     (let d = sint (count + 1)
      in if d = 0 then Panic ''integer divide by zero'' else Ret (sgn d * (300 div \<bar>d\<bar>)))"

text \<open>
  One \<open>Range\<close> over the table: the keys in the order they are visited, each with whether the
  context was cancelled by then (the callback then returns false, which ends the \<open>Range\<close>). The
  result lists the delays slept, in seconds.
\<close>

fun int_health_pass ::
  "net_env \<Rightarrow> (any_key \<times> bool) list \<Rightarrow> ('l InternalNetworkContoller, int list) go" where
  "int_health_pass env [] n = (Ret [], n)"
| "int_health_pass env ((key, ctxDone) # rest) n =
     (if ctxDone then (Ret [], n)
      else case key of
             KeyInt i \<Rightarrow> (Panic ''interface conversion'', n)
           | KeyIP ip \<Rightarrow>
               (let n' = n\<lparr>healthCheckTable :=
                          (healthCheckTable n)(KeyIP ip \<mapsto> checkHealth env ip ''/health'')\<rparr>
                in case healthDelay (instanceCount n') of
                     Panic msg \<Rightarrow> (Panic msg, n')
                   | Blocked \<Rightarrow> (Blocked, n')
                   | Ret delay \<Rightarrow>
                       go_bind (int_health_pass env rest) (\<lambda>ds. go_return (delay # ds)) n'))"

text \<open>
  The outer loop has no exit: it starts the next \<open>Range\<close> whatever ended the last one. What each
  pass sees of the world, and its order, are given for every round.
\<close>

type_synonym 'l health_rounds = "nat \<Rightarrow> 'l InternalNetworkContoller \<Rightarrow> net_env \<times> (any_key \<times> bool) list"

partial_function (option) int_RunHealthChecks ::
  "'l health_rounds \<Rightarrow> nat \<Rightarrow> 'l InternalNetworkContoller \<Rightarrow>
   (unit outcome \<times> 'l InternalNetworkContoller) option" where
  "int_RunHealthChecks rounds i n =
     (case int_health_pass (fst (rounds i n)) (snd (rounds i n)) n of
        (Ret ds, n') \<Rightarrow> int_RunHealthChecks rounds (Suc i) n'
      | (Panic msg, n') \<Rightarrow> Some (Panic msg, n')
      | (Blocked, n') \<Rightarrow> Some (Blocked, n'))"

section \<open>The bookkeeping invariant\<close>

definition listed :: "'l LoadBalancer \<Rightarrow> 'l InternalNetworkContoller \<Rightarrow> string \<Rightarrow> IP list" where
  "listed L n svc = (case instancesMap n svc of None \<Rightarrow> [] | Some lb \<Rightarrow> GetIPs L lb)"

definition registered_total :: "'l LoadBalancer \<Rightarrow> 'l InternalNetworkContoller \<Rightarrow> nat" where
  "registered_total L n = map_total (\<lambda>lb. length (GetIPs L lb)) (instancesMap n)"

text \<open>
  Every balancer satisfies its invariant, no address is registered twice, every registered address
  has a health entry, every key of the table is an address, and \<open>instanceCount\<close> is the number of
  registered addresses.
\<close>

definition int_wf ::
  "'l LoadBalancer \<Rightarrow> 'l LoadBalancerConstructor \<Rightarrow> ('l \<Rightarrow> bool) \<Rightarrow>
   'l InternalNetworkContoller \<Rightarrow> bool" where
  "int_wf L newLb lbInv n \<longleftrightarrow>
     defaultLoadBalancer n = Some newLb \<and>
     finite (dom (instancesMap n)) \<and>
     (\<forall>svc lb. instancesMap n svc = Some lb \<longrightarrow> lbInv lb) \<and>
     (\<forall>svc. distinct (listed L n svc) \<and> length (listed L n svc) < 2 ^ 63) \<and>
     (\<forall>svc svc'. svc \<noteq> svc' \<longrightarrow> set (listed L n svc) \<inter> set (listed L n svc') = {}) \<and>
     (\<forall>svc ip. ip \<in> set (listed L n svc) \<longrightarrow> healthCheckTable n (KeyIP ip) \<noteq> None) \<and>
     (\<forall>i. healthCheckTable n (KeyInt i) = None) \<and>
     instanceCount n = of_nat (registered_total L n)"

lemma int_wfD:
  assumes "int_wf L newLb lbInv n"
  shows "defaultLoadBalancer n = Some newLb"
    and "finite (dom (instancesMap n))"
    and "instancesMap n svc = Some lb \<Longrightarrow> lbInv lb"
    and "distinct (listed L n svc)"
    and "length (listed L n svc) < 2 ^ 63"
    and "svc \<noteq> svc' \<Longrightarrow> set (listed L n svc) \<inter> set (listed L n svc') = {}"
    and "ip \<in> set (listed L n svc) \<Longrightarrow> healthCheckTable n (KeyIP ip) \<noteq> None"
    and "healthCheckTable n (KeyInt i) = None"
    and "instanceCount n = of_nat (registered_total L n)"
  using assms by (auto simp: int_wf_def)

lemma listed_Some: "instancesMap n svc = Some lb \<Longrightarrow> listed L n svc = GetIPs L lb"
  by (simp add: listed_def)

lemma listed_None: "instancesMap n svc = None \<Longrightarrow> listed L n svc = []"
  by (simp add: listed_def)

lemma listed_update:
  "instancesMap n' = (instancesMap n)(svc \<mapsto> lb) \<Longrightarrow>
   listed L n' = (listed L n)(svc := GetIPs L lb)"
  by (auto simp: listed_def)

lemma registered_total_update:
  assumes "finite (dom (instancesMap n))" and "instancesMap n' = (instancesMap n)(svc \<mapsto> lb)"
  shows "registered_total L n' + length (listed L n svc) = registered_total L n + length (GetIPs L lb)"
  using map_total_remove[OF assms(1), of "\<lambda>lb. length (GetIPs L lb)" svc]
    map_total_update[OF assms(1), of "\<lambda>lb. length (GetIPs L lb)" svc lb]
  by (simp add: registered_total_def assms(2) listed_def split: option.splits)

lemma drop_indices_fields [simp]:
  "instancesMap (drop_indices i ips n) = instancesMap n"
  "defaultLoadBalancer (drop_indices i ips n) = defaultLoadBalancer n"
  "instanceCount (drop_indices i ips n) = instanceCount n - of_nat (length ips)"
  "healthCheckTable (drop_indices i ips n) (KeyIP ip) = healthCheckTable n (KeyIP ip)"
  by (induction i ips n rule: drop_indices.induct) simp_all

lemma drop_indices_KeyInt:
  "healthCheckTable n (KeyInt j) = None \<Longrightarrow> healthCheckTable (drop_indices i ips n) (KeyInt j) = None"
  by (induction i ips n rule: drop_indices.induct) simp_all

text \<open>The invariant after the balancer of one service was replaced.\<close>

lemma int_wf_update:
  assumes wf: "int_wf L newLb lbInv n"
    and map: "instancesMap n' = (instancesMap n)(svc \<mapsto> l)"
    and l: "lbInv l" "distinct (GetIPs L l)" "length (GetIPs L l) < 2 ^ 63"
    and disj: "\<And>v. v \<noteq> svc \<Longrightarrow> set (GetIPs L l) \<inter> set (listed L n v) = {}"
    and health: "\<And>v ip. ip \<in> set (listed L n' v) \<Longrightarrow> healthCheckTable n' (KeyIP ip) \<noteq> None"
    and ints: "\<And>i. healthCheckTable n' (KeyInt i) = None"
    and dflt: "defaultLoadBalancer n' = defaultLoadBalancer n"
    and cnt: "instanceCount n' + of_nat (length (listed L n svc)) =
      instanceCount n + of_nat (length (GetIPs L l))"
  shows "int_wf L newLb lbInv n'"
proof -
  have lst: "listed L n' = (listed L n)(svc := GetIPs L l)"
    by (rule listed_update[OF map])
  have "registered_total L n' + length (listed L n svc) = registered_total L n + length (GetIPs L l)"
    by (rule registered_total_update[OF int_wfD(2)[OF wf] map])
  then have "(of_nat (registered_total L n' + length (listed L n svc)) :: 64 word)
      = of_nat (registered_total L n + length (GetIPs L l))" by simp
  with cnt int_wfD(9)[OF wf] have "instanceCount n' = of_nat (registered_total L n')"
    by (metis add_right_cancel of_nat_add)
  moreover have "set (listed L n' v) \<inter> set (listed L n' v') = {}" if "v \<noteq> v'" for v v'
    using that disj[of v] disj[of v'] int_wfD(6)[OF wf that] by (auto simp: lst)
  ultimately show ?thesis
    unfolding int_wf_def using health ints dflt l map int_wfD[OF wf]
    by (simp add: lst)
qed

context load_balancer
begin

lemma int_balancer_for:
  assumes "int_wf lb lb_new lb_inv n"
  shows "\<exists>l. balancer_for n svc = Ret (Inr l) \<and> lb_inv l \<and> GetIPs lb l = listed lb n svc"
proof (cases "instancesMap n svc")
  case None
  with new_lb[of "lbOpts n"] int_wfD(1)[OF assms] show ?thesis
    by (auto simp: balancer_for_def listed_None)
next
  case (Some l)
  with int_wfD(3)[OF assms] show ?thesis
    by (auto simp: balancer_for_def listed_Some)
qed

lemma int_add:
  assumes wf: "int_wf lb lb_new lb_inv n" and fresh: "\<forall>v. ip \<notin> set (listed lb n v)"
    and len: "Suc (length (listed lb n svc)) < 2 ^ 63"
  shows "\<exists>n'. int_AddServiceIP env lb svc ip n = (Ret None, n') \<and> int_wf lb lb_new lb_inv n' \<and>
    listed lb n' = (listed lb n)(svc := listed lb n svc @ [ip])"
proof -
  from int_balancer_for[OF wf] obtain l where
    l: "balancer_for n svc = Ret (Inr l)" "lb_inv l" "GetIPs lb l = listed lb n svc" by blast
  moreover have "Suc (length (GetIPs lb l)) < 2 ^ 64" using len l(3) by simp
  ultimately obtain l' where
    l': "AddInstance lb ip l = Ret (Inr l')" "lb_inv l'" "GetIPs lb l' = listed lb n svc @ [ip]"
    using add_lb[of l ip] by metis
  let ?n' = "n\<lparr>healthCheckTable := (healthCheckTable n)(KeyIP ip \<mapsto> checkHealth env ip ''''),
                  instancesMap := (instancesMap n)(svc \<mapsto> l'),
                  instanceCount := instanceCount n + 1\<rparr>"
  have step: "int_AddServiceIP env lb svc ip n = (Ret None, ?n')"
    by (simp add: int_AddServiceIP_def l(1) l'(1))
  have lst: "listed lb ?n' = (listed lb n)(svc := listed lb n svc @ [ip])"
    using listed_update[of ?n' n svc l' lb] by (simp add: l'(3))
  have disj: "set (GetIPs lb l') \<inter> set (listed lb n v) = {}" if "v \<noteq> svc" for v
    using int_wfD(6)[OF wf that] fresh by (auto simp: l'(3))
  have "int_wf lb lb_new lb_inv ?n'"
  proof (rule int_wf_update[OF wf, where svc = svc and l = l'])
    show "lb_inv l'" by (rule l'(2))
    show "distinct (GetIPs lb l')" using int_wfD(4)[OF wf, of svc] fresh by (simp add: l'(3))
    show "length (GetIPs lb l') < 2 ^ 63" using len by (simp add: l'(3))
    show "healthCheckTable ?n' (KeyIP a) \<noteq> None" if "a \<in> set (listed lb ?n' v)" for v a
      using that int_wfD(7)[OF wf, of a v] by (auto simp: lst split: if_splits)
  qed (use disj l'(3) int_wfD(8)[OF wf] in auto)
  with step lst show ?thesis by blast
qed

lemma int_delete:
  assumes wf: "int_wf lb lb_new lb_inv n" and mem: "ip \<in> set (listed lb n svc)"
  shows "\<exists>n'. int_DeleteServiceIP lb svc ip n = (Ret None, n') \<and> int_wf lb lb_new lb_inv n' \<and>
    listed lb n' = (listed lb n)(svc := filter (\<lambda>x. x \<noteq> ip) (listed lb n svc)) \<and>
    healthCheckTable n' = (healthCheckTable n)(KeyIP ip := None)"
proof -
  from mem obtain l where l: "instancesMap n svc = Some l"
    by (cases "instancesMap n svc") (auto simp: listed_None)
  note ls = listed_Some[OF l, of lb]
  have inv: "lb_inv l" using int_wfD(3)[OF wf l] .
  have cnt: "count_list (GetIPs lb l) ip = 1"
    using mem int_wfD(4)[OF wf, of svc] by (simp add: ls distinct_count_list_1)
  from delete_lb[OF inv cnt] obtain l' where
    l': "DeleteInstance lb ip l = Ret (Inr l')" "lb_inv l'"
      "GetIPs lb l' = filter (\<lambda>x. x \<noteq> ip) (listed lb n svc)" by (auto simp: ls)
  let ?n' = "n\<lparr>instancesMap := (instancesMap n)(svc \<mapsto> l'),
                 healthCheckTable := (healthCheckTable n)(KeyIP ip := None),
                 instanceCount := instanceCount n - 1\<rparr>"
  have step: "int_DeleteServiceIP lb svc ip n = (Ret None, ?n')"
    by (simp add: int_DeleteServiceIP_def Let_def l l'(1))
  have lst: "listed lb ?n' = (listed lb n)(svc := filter (\<lambda>x. x \<noteq> ip) (listed lb n svc))"
    using listed_update[of ?n' n svc l' lb] by (simp add: l'(3))
  have len: "length (listed lb n svc) = length (GetIPs lb l') + 1"
    using cnt count_le_length[of "GetIPs lb l" ip] mem
    by (simp add: l'(3) ls count_list_filter_length)
  have other: "ip \<notin> set (listed lb n v)" if "v \<noteq> svc" for v
    using int_wfD(6)[OF wf that] mem by auto
  have "int_wf lb lb_new lb_inv ?n'"
  proof (rule int_wf_update[OF wf, where svc = svc and l = l'])
    show "lb_inv l'" by (rule l'(2))
    show "distinct (GetIPs lb l')" using int_wfD(4)[OF wf, of svc] by (simp add: l'(3))
    show "length (GetIPs lb l') < 2 ^ 63" using len int_wfD(5)[OF wf, of svc] by simp
    show "set (GetIPs lb l') \<inter> set (listed lb n v) = {}" if "v \<noteq> svc" for v
      using int_wfD(6)[OF wf that] by (auto simp: l'(3))
    show "healthCheckTable ?n' (KeyIP a) \<noteq> None" if "a \<in> set (listed lb ?n' v)" for v a
      using that int_wfD(7)[OF wf, of a v] other[of v] by (auto simp: lst split: if_splits)
    show "instanceCount ?n' + of_nat (length (listed lb n svc)) =
        instanceCount n + of_nat (length (GetIPs lb l'))"
      by (simp add: len)
  qed (use int_wfD(8)[OF wf] in auto)
  with step lst show ?thesis by force
qed

end

section \<open>Resolving, counting and deleting a service\<close>

text \<open>The address that draw number \<open>p\<close> of the generator picks from a list.\<close>

definition drawn_ip :: "net_env \<Rightarrow> IP list \<Rightarrow> nat \<Rightarrow> IP" where
  "drawn_ip env ips p = ips ! (rand_draw env p mod length ips)"

definition is_healthy :: "'l InternalNetworkContoller \<Rightarrow> IP \<Rightarrow> bool" where
  "is_healthy n ip \<longleftrightarrow> healthCheckTable n (KeyIP ip) = Some True"

definition watchdog_url :: "net_env \<Rightarrow> IP \<Rightarrow> go_error + URL" where
  "watchdog_url env ip = url_Parse env (''http://'' @ ip @ '':'' @ itoa WatchdogPort)"

lemma count_healthy_eq:
  "count_healthy tbl ips c = c + of_nat (length (filter (\<lambda>ip. tbl (KeyIP ip) = Some True) ips))"
  by (induction tbl ips c rule: count_healthy.induct) (simp_all add: algebra_simps)

lemma find_upt_Suc:
  "a < b \<Longrightarrow> find P [a..<b] = (if P a then Some a else find P [Suc a..<b])"
  by (simp add: upt_conv_Cons)

lemma find_SomeD: "find P xs = Some x \<Longrightarrow> x \<in> set xs \<and> P x"
  by (induction xs) (auto split: if_splits)

context load_balancer
begin

text \<open>
  The loop returns the address of the first draw that hits a healthy one, among the draws it may
  make.
\<close>

lemma int_resolve_loop_find:
  assumes l: "lb_inv l" "GetIPs lb l \<noteq> []" "length (GetIPs lb l) < 2 ^ 63"
  shows "int_resolve_loop env lb l maxLen tries n =
    (case find (\<lambda>k. is_healthy n (drawn_ip env (GetIPs lb l) (randPos n + k - tries)))
            [tries..<max (unat maxLen) 5] of
       None \<Rightarrow> (Ret (Inl (Errorf ''healthy instance not found'')),
                n\<lparr>randPos := randPos n + (max (unat maxLen) 5 - tries)\<rparr>)
     | Some k \<Rightarrow> (Ret (watchdog_url env (drawn_ip env (GetIPs lb l) (randPos n + k - tries))),
                n\<lparr>randPos := Suc (randPos n + k - tries)\<rparr>))"
proof (induction "max (unat maxLen) 5 - tries" arbitrary: tries n)
  case 0
  then have "\<not> (tries < unat maxLen \<or> tries < 5)" and "max (unat maxLen) 5 \<le> tries" by auto
  then show ?case by (subst int_resolve_loop.simps) simp
next
  case (Suc m)
  then have lt: "tries < unat maxLen \<or> tries < 5" "tries < max (unat maxLen) 5" by auto
  let ?n' = "n\<lparr>randPos := Suc (randPos n)\<rparr>"
  have m: "m = max (unat maxLen) 5 - Suc tries" using Suc.hyps(2) by simp
  have h: "is_healthy ?n' = is_healthy n" by (rule ext) (simp add: is_healthy_def)
  note IH = Suc.hyps(1)[OF m, of ?n']
  have step: "int_resolve_loop env lb l maxLen tries n =
    (if is_healthy n (drawn_ip env (GetIPs lb l) (randPos n))
     then (Ret (watchdog_url env (drawn_ip env (GetIPs lb l) (randPos n))), ?n')
     else int_resolve_loop env lb l maxLen (Suc tries) ?n')"
    by (subst int_resolve_loop.simps)
      (simp add: lt next_lb[OF l] is_healthy_def drawn_ip_def watchdog_url_def Let_def)
  have pos: "Suc (randPos n + (max (unat maxLen) 5 - Suc tries)) =
      randPos n + (max (unat maxLen) 5 - tries)" using lt(2) by (simp only: Suc_diff_Suc flip: add_Suc_right)
  have "Suc (Suc (randPos n) + k - Suc tries) = Suc (randPos n + k - tries)" for k by simp
  with IH show ?case
    unfolding step find_upt_Suc[OF lt(2)]
    by (simp add: h pos split: option.splits)
qed

lemma int_resolve_empty:
  assumes "lb_inv l" "GetIPs lb l = []"
  shows "\<exists>e. int_resolve_loop env lb l maxLen 0 n = (Ret (Inl e), n)"
proof -
  from next_lb_empty[OF assms, of "rand_draw env (randPos n)"] obtain e where
    "NextInstance lb (rand_draw env (randPos n)) l = Ret (Inl e)" by blast
  then show ?thesis by (subst int_resolve_loop.simps) simp
qed

lemma int_resolve_cases:
  assumes wf: "int_wf lb lb_new lb_inv n"
    and res: "int_ResolveServiceEndpoint env lb svc n = (r, n')"
  obtains (failed) e p where "r = Ret (Inl e)" and "n' = n\<lparr>randPos := p\<rparr>"
  | (found) ip p where "r = Ret (watchdog_url env ip)" and "n' = n\<lparr>randPos := p\<rparr>"
      and "ip \<in> set (listed lb n svc)" and "is_healthy n ip"
proof (cases "instancesMap n svc")
  case None
  then have "r = Ret (Inl (Errorf (''service not found: '' @ svc)))" "n' = n\<lparr>randPos := randPos n\<rparr>"
    using res by (auto simp: int_ResolveServiceEndpoint_def)
  then show ?thesis by (rule failed)
next
  case (Some l)
  note l = int_wfD(3)[OF wf Some] and ls = listed_Some[OF Some, of lb]
  have res': "int_resolve_loop env lb l (Size lb l) 0 n = (r, n')"
    using res by (simp add: int_ResolveServiceEndpoint_def Some)
  show ?thesis
  proof (cases "GetIPs lb l = []")
    case True
    from int_resolve_empty[OF l True] obtain e where
      "int_resolve_loop env lb l (Size lb l) 0 n = (Ret (Inl e), n)" by blast
    with res' have "r = Ret (Inl e)" "n' = n\<lparr>randPos := randPos n\<rparr>" by simp_all
    then show ?thesis by (rule failed)
  next
    case False
    have len: "length (GetIPs lb l) < 2 ^ 63" using int_wfD(5)[OF wf, of svc] by (simp add: ls)
    note loop = int_resolve_loop_find[OF l False len, of env "Size lb l" 0 n]
    let ?ip = "\<lambda>k. drawn_ip env (GetIPs lb l) (randPos n + k)"
    show ?thesis
    proof (cases "find (\<lambda>k. is_healthy n (?ip k)) [0..<max (unat (Size lb l)) 5]")
      case None
      with loop res' show ?thesis by (intro failed) auto
    next
      case (Some k)
      with loop res' have "r = Ret (watchdog_url env (?ip k))"
        and "n' = n\<lparr>randPos := Suc (randPos n + k)\<rparr>" by auto
      moreover have "?ip k \<in> set (listed lb n svc)" using False by (simp add: ls drawn_ip_def)
      moreover have "is_healthy n (?ip k)" using find_SomeD[OF Some] by simp
      ultimately show ?thesis by (rule found)
    qed
  qed
qed

lemma int_resolve_spec:
  assumes wf: "int_wf lb lb_new lb_inv n" and ne: "listed lb n svc \<noteq> []"
  shows "int_ResolveServiceEndpoint env lb svc n =
    (case find (\<lambda>k. is_healthy n (drawn_ip env (listed lb n svc) (randPos n + k)))
            [0..<max (length (listed lb n svc)) 5] of
       None \<Rightarrow> (Ret (Inl (Errorf ''healthy instance not found'')),
                n\<lparr>randPos := randPos n + max (length (listed lb n svc)) 5\<rparr>)
     | Some k \<Rightarrow> (Ret (watchdog_url env (drawn_ip env (listed lb n svc) (randPos n + k))),
                n\<lparr>randPos := Suc (randPos n + k)\<rparr>))"
proof -
  from ne obtain l where l: "instancesMap n svc = Some l"
    by (cases "instancesMap n svc") (auto simp: listed_None)
  note ls = listed_Some[OF l, of lb]
  have "length (GetIPs lb l) < 2 ^ 63" using int_wfD(5)[OF wf, of svc] by (simp add: ls)
  from int_resolve_loop_find[OF int_wfD(3)[OF wf l] _ this, of env "Size lb l" 0 n] ne
  show ?thesis
    by (simp add: int_ResolveServiceEndpoint_def l ls size_lb[OF int_wfD(3)[OF wf l]]
        split: option.split)
qed

lemma int_available:
  assumes "int_wf lb lb_new lb_inv n"
  shows "int_AvailableIPs lb svc n =
    (if instancesMap n svc = None then Inl (Errorf (''service '' @ svc @ '' not found''))
     else Inr (of_nat (length (filter (is_healthy n) (listed lb n svc)))))"
  by (auto simp: int_AvailableIPs_def count_healthy_eq listed_def is_healthy_def[abs_def]
      split: option.splits)

end

lemma listed_remove:
  "instancesMap n' = (instancesMap n)(svc := None) \<Longrightarrow> listed L n' = (listed L n)(svc := [])"
  by (auto simp: listed_def)

lemma int_DeleteService_outcome:
  "\<exists>n'. int_DeleteService L svc n = (Ret (Some (Errorf (''service '' @ svc @ '' not found''))), n') \<and>
     instancesMap n' = (instancesMap n)(svc := None) \<and>
     defaultLoadBalancer n' = defaultLoadBalancer n \<and>
     instanceCount n' = instanceCount n - of_nat (length (listed L n svc)) \<and>
     (\<forall>ip. healthCheckTable n' (KeyIP ip) = healthCheckTable n (KeyIP ip)) \<and>
     (\<forall>i. healthCheckTable n (KeyInt i) = None \<longrightarrow> healthCheckTable n' (KeyInt i) = None)"
proof (cases "instancesMap n svc")
  case None
  then have "(instancesMap n)(svc := None) = instancesMap n" by auto
  with None show ?thesis by (auto simp: int_DeleteService_def Let_def listed_None)
next
  case (Some l)
  then show ?thesis
    by (auto simp: int_DeleteService_def Let_def listed_Some intro: drop_indices_KeyInt)
qed

lemma int_wf_delete_service:
  assumes wf: "int_wf L newLb lbInv n" and del: "int_DeleteService L svc n = (r, n')"
  shows "int_wf L newLb lbInv n' \<and> listed L n' = (listed L n)(svc := [])"
proof -
  from int_DeleteService_outcome[of L svc n] del have
    map: "instancesMap n' = (instancesMap n)(svc := None)"
    and dflt: "defaultLoadBalancer n' = defaultLoadBalancer n"
    and cnt: "instanceCount n' = instanceCount n - of_nat (length (listed L n svc))"
    and tbl: "\<And>ip. healthCheckTable n' (KeyIP ip) = healthCheckTable n (KeyIP ip)"
    and ints: "\<And>i. healthCheckTable n' (KeyInt i) = None"
    using int_wfD(8)[OF wf] by auto
  have lst: "listed L n' = (listed L n)(svc := [])" by (rule listed_remove[OF map])
  have "registered_total L n = registered_total L n' + length (listed L n svc)"
    using map_total_remove[OF int_wfD(2)[OF wf], of "\<lambda>lb. length (GetIPs L lb)" svc]
    by (simp add: registered_total_def map listed_def split: option.splits)
  then have "instanceCount n' = of_nat (registered_total L n')"
    using cnt int_wfD(9)[OF wf] by simp
  moreover have "instancesMap n' v = Some lb \<Longrightarrow> lbInv lb" for v lb
    using int_wfD(3)[OF wf, of v lb] by (auto simp: map split: if_splits)
  ultimately show ?thesis
    unfolding int_wf_def using int_wfD[OF wf] dflt tbl ints by (simp add: lst map)
qed

lemma int_wf_frame:
  assumes "int_wf L newLb lbInv n" and "instancesMap n' = instancesMap n"
    and "defaultLoadBalancer n' = defaultLoadBalancer n" and "instanceCount n' = instanceCount n"
    and "\<And>ip. healthCheckTable n (KeyIP ip) \<noteq> None \<Longrightarrow> healthCheckTable n' (KeyIP ip) \<noteq> None"
    and "\<And>i. healthCheckTable n' (KeyInt i) = None"
  shows "int_wf L newLb lbInv n'"
proof -
  have "listed L n' = listed L n" "registered_total L n' = registered_total L n"
    by (auto simp: listed_def registered_total_def assms(2))
  with assms show ?thesis unfolding int_wf_def by metis
qed

lemma sint_succ_zero: "sint (c + 1 :: 64 word) = 0 \<longleftrightarrow> c = - 1"
proof -
  have "sint (c + 1) = 0 \<longleftrightarrow> c + 1 = 0"
    by (metis sint_0 signed_word_eqI)
  then show ?thesis by (simp add: eq_neg_iff_add_eq_0)
qed

lemma healthDelay_cases:
  "healthDelay c = (if c = - 1 then Panic ''integer divide by zero''
     else Ret (sgn (sint (c + 1)) * (300 div \<bar>sint (c + 1)\<bar>)))"
  unfolding healthDelay_def Let_def sint_succ_zero by (rule refl)

text \<open>A pass over keys of the table changes health entries only, and keeps the invariant.\<close>

lemma int_health_pass_frame:
  assumes "int_health_pass env keys n = (r, n')"
    and "\<forall>k\<in>fst ` set keys. healthCheckTable n k \<noteq> None"
  shows "instancesMap n' = instancesMap n \<and> defaultLoadBalancer n' = defaultLoadBalancer n \<and>
    instanceCount n' = instanceCount n \<and> dom (healthCheckTable n') = dom (healthCheckTable n)"
  using assms
proof (induction keys arbitrary: n r n')
  case Nil
  then show ?case by simp
next
  case (Cons k rest)
  obtain key cncl where k: "k = (key, cncl)" by fastforce
  show ?case
  proof (cases "\<not> cncl \<and> (\<exists>ip. key = KeyIP ip) \<and> instanceCount n \<noteq> - 1")
    case False
    with Cons.prems show ?thesis
      by (cases key) (auto simp: k healthDelay_cases Let_def split: if_splits)
  next
    case True
    then obtain ip where ip: "key = KeyIP ip" by blast
    let ?n = "n\<lparr>healthCheckTable := (healthCheckTable n)(KeyIP ip \<mapsto> checkHealth env ip ''/health'')\<rparr>"
    from Cons.prems(1) True have run: "go_bind (int_health_pass env rest)
        (\<lambda>ds. go_return (sgn (sint (instanceCount n + 1)) *
                 (300 div \<bar>sint (instanceCount n + 1)\<bar>) # ds)) ?n = (r, n')"
      by (simp add: k ip healthDelay_cases Let_def)
    obtain r1 n1 where r1: "int_health_pass env rest ?n = (r1, n1)" by fastforce
    with run have n1: "n1 = n'" by (cases r1) (simp_all add: go_return_def)
    have "\<forall>k\<in>fst ` set rest. healthCheckTable ?n k \<noteq> None" using Cons.prems(2) by auto
    note IH = Cons.IH[OF r1 this, unfolded n1]
    have "instancesMap n' = instancesMap n \<and> defaultLoadBalancer n' = defaultLoadBalancer n \<and>
      instanceCount n' = instanceCount n" using IH by simp
    moreover have "dom (healthCheckTable ?n) = dom (healthCheckTable n)"
      using Cons.prems(2) by (auto simp: k ip)
    then have "dom (healthCheckTable n') = dom (healthCheckTable n)" using IH by blast
    ultimately show ?thesis by blast
  qed
qed

lemma int_health_pass_returns:
  assumes "instanceCount n \<noteq> - 1" and "\<forall>k\<in>fst ` set keys. \<exists>ip. k = KeyIP ip"
  shows "\<exists>ds n'. int_health_pass env keys n = (Ret ds, n')"
  using assms
proof (induction keys arbitrary: n)
  case Nil
  then show ?case by simp
next
  case (Cons k keys)
  obtain ip cncl where k: "k = (KeyIP ip, cncl)" using Cons.prems(2) by (cases k) auto
  let ?n = "n\<lparr>healthCheckTable := (healthCheckTable n)(KeyIP ip \<mapsto> checkHealth env ip ''/health'')\<rparr>"
  have "\<exists>ds n'. int_health_pass env keys ?n = (Ret ds, n')"
    using Cons.prems by (intro Cons.IH) auto
  then show ?case using Cons.prems(1) by (auto simp: k healthDelay_cases Let_def go_return_def)
qed

lemma int_wf_health_pass:
  assumes wf: "int_wf L newLb lbInv n" and run: "int_health_pass env keys n = (r, n')"
    and keys: "\<forall>k\<in>fst ` set keys. healthCheckTable n k \<noteq> None"
  shows "int_wf L newLb lbInv n' \<and> listed L n' = listed L n"
proof -
  note fr = int_health_pass_frame[OF run keys]
  then have "listed L n' = listed L n" by (auto simp: listed_def)
  moreover have "int_wf L newLb lbInv n'"
  proof (rule int_wf_frame[OF wf])
    have "healthCheckTable n' k \<noteq> None \<longleftrightarrow> healthCheckTable n k \<noteq> None" for k
      using fr by (metis domIff)
    then show "healthCheckTable n (KeyIP ip) \<noteq> None \<Longrightarrow> healthCheckTable n' (KeyIP ip) \<noteq> None"
      and "healthCheckTable n' (KeyInt i) = None" for ip i
      using int_wfD(8)[OF wf, of i] by blast+
  qed (use fr in simp_all)
  ultimately show ?thesis by simp
qed

section \<open>The controller keeps the contract of a network controller\<close>

lemma int_new_wf:
  assumes "\<forall>opts. \<exists>l. newLb opts = Inr l"
  shows "\<exists>n. NewInternalNetworkContoller newLb [] = Inr n \<and> int_wf L newLb lbInv n \<and>
    listed L n = (\<lambda>_. []) \<and> healthCheckTable n = Map.empty \<and> instanceCount n = 0"
  by (auto simp: NewInternalNetworkContoller_def zeroController_def int_wf_def listed_def
      registered_total_def)

interpretation internal: network_controller "internalController env randomLB" "listed randomLB"
    "int_wf randomLB NewRandomLoadBalancer rlb_inv" "\<lambda>ip. True"
proof unfold_locales
  fix s svc svc'
  assume wf: "int_wf randomLB NewRandomLoadBalancer rlb_inv s"
  show "distinct (listed randomLB s svc)" by (rule int_wfD(4)[OF wf])
  show "svc \<noteq> svc' \<Longrightarrow> set (listed randomLB s svc) \<inter> set (listed randomLB s svc') = {}"
    by (rule int_wfD(6)[OF wf])
  show "\<exists>r s'. ResolveServiceEndpoint (internalController env randomLB) svc s = (Ret r, s')"
    by (metis internalController_sel(4) prod.exhaust rlb.int_resolve_cases[OF wf])
next
  fix s ip svc
  assume "int_wf randomLB NewRandomLoadBalancer rlb_inv s" "\<forall>v. ip \<notin> set (listed randomLB s v)"
    "Suc (length (listed randomLB s svc)) < 2 ^ 63"
  from rlb.int_add[OF this, of env]
  show "\<exists>e s'. AddServiceIP (internalController env randomLB) svc ip s = (Ret e, s') \<and>
      int_wf randomLB NewRandomLoadBalancer rlb_inv s' \<and>
      listed randomLB s' = (listed randomLB s)(svc := listed randomLB s svc @ [ip])"
    by auto
next
  fix s ip svc
  assume "int_wf randomLB NewRandomLoadBalancer rlb_inv s" "ip \<in> set (listed randomLB s svc)"
  from rlb.int_delete[OF this]
  show "\<exists>e s'. DeleteServiceIP (internalController env randomLB) svc ip s = (Ret e, s') \<and>
      int_wf randomLB NewRandomLoadBalancer rlb_inv s' \<and>
      listed randomLB s' = (listed randomLB s)(svc := filter (\<lambda>x. x \<noteq> ip) (listed randomLB s svc))"
    by auto
next
  fix s svc r s'
  assume wf: "int_wf randomLB NewRandomLoadBalancer rlb_inv s"
    and "ResolveServiceEndpoint (internalController env randomLB) svc s = (r, s')"
  then have res: "int_ResolveServiceEndpoint env randomLB svc s = (r, s')" by simp
  have "\<exists>p. s' = s\<lparr>randPos := p\<rparr>" by (rule rlb.int_resolve_cases[OF wf res]) blast+
  then have eq: "instancesMap s' = instancesMap s" "defaultLoadBalancer s' = defaultLoadBalancer s"
    "instanceCount s' = instanceCount s" "healthCheckTable s' = healthCheckTable s" by auto
  have "int_wf randomLB NewRandomLoadBalancer rlb_inv s'"
    by (rule int_wf_frame[OF wf]) (simp_all add: eq int_wfD(8)[OF wf])
  then show "int_wf randomLB NewRandomLoadBalancer rlb_inv s' \<and> listed randomLB s' = listed randomLB s"
    using eq by (auto simp: listed_def)
next
  fix s svc u s'
  assume wf: "int_wf randomLB NewRandomLoadBalancer rlb_inv s"
    and "ResolveServiceEndpoint (internalController env randomLB) svc s = (Ret (Inr u), s')"
  then have res: "int_ResolveServiceEndpoint env randomLB svc s = (Ret (Inr u), s')" by simp
  show "listed randomLB s svc \<noteq> []" by (rule rlb.int_resolve_cases[OF wf res]) auto
next
  fix s svc n
  assume wf: "int_wf randomLB NewRandomLoadBalancer rlb_inv s"
    and len: "length (listed randomLB s svc) < 2 ^ 63"
    and "AvailableIPs (internalController env randomLB) svc s = Inr n"
  then have n: "n = of_nat (length (filter (is_healthy s) (listed randomLB s svc)))"
    using rlb.int_available[OF wf, of svc] by (simp split: if_splits)
  have le: "length (filter (is_healthy s) (listed randomLB s svc)) \<le> length (listed randomLB s svc)"
    by (rule length_filter_le)
  then show "unat n \<le> length (listed randomLB s svc)"
    unfolding n unat_of_nat by (metis le_trans mod_less_eq_dividend)
qed

section \<open>Histories of the controller\<close>

text \<open>
  The calls of a controller: registering an address that is not registered yet, as the bridge gives
  them out, deregistering any address of any service, deleting a service, resolving, and the passes of
  the health loop over the keys of the table. A deregistration for a service without addresses is a
  stray one; a step carries the address of the stray deregistration it makes.
\<close>

inductive int_step ::
  "RandomLoadBalancer InternalNetworkContoller \<Rightarrow> IP list \<Rightarrow> RandomLoadBalancer InternalNetworkContoller \<Rightarrow> bool"
where
  register: "\<forall>v. ip \<notin> set (listed randomLB n v) \<Longrightarrow> Suc (length (listed randomLB n svc)) < 2 ^ 63 \<Longrightarrow>
    int_AddServiceIP env randomLB svc ip n = (r, n') \<Longrightarrow> int_step n [] n'"
| deregister: "int_DeleteServiceIP randomLB svc ip n = (r, n') \<Longrightarrow>
    int_step n (if listed randomLB n svc = [] then [ip] else []) n'"
| remove_service: "int_DeleteService randomLB svc n = (r, n') \<Longrightarrow> int_step n [] n'"
| resolve: "int_ResolveServiceEndpoint env randomLB svc n = (r', n') \<Longrightarrow> int_step n [] n'"
| health: "\<forall>k\<in>fst ` set keys. healthCheckTable n k \<noteq> None \<Longrightarrow>
    int_health_pass env keys n = (r'', n') \<Longrightarrow> int_step n [] n'"

text \<open>The controllers that calls can produce, with the stray deregistrations made so far.\<close>

inductive int_history :: "IP list \<Rightarrow> RandomLoadBalancer InternalNetworkContoller \<Rightarrow> bool" where
  created: "NewInternalNetworkContoller NewRandomLoadBalancer [] = Inr n \<Longrightarrow> int_history [] n"
| stepped: "int_history strays n \<Longrightarrow> int_step n new n' \<Longrightarrow> int_history (new @ strays) n'"

text \<open>
  A controller after stray deregistrations, beside the one it would be without them: they cost one in
  the count each, and may have removed the health entries of their addresses.
\<close>

definition shadowed_by ::
  "IP list \<Rightarrow> RandomLoadBalancer InternalNetworkContoller \<Rightarrow> RandomLoadBalancer InternalNetworkContoller \<Rightarrow> bool" where
  "shadowed_by strays n n0 \<longleftrightarrow> int_wf randomLB NewRandomLoadBalancer rlb_inv n0 \<and>
     instancesMap n0 = instancesMap n \<and> defaultLoadBalancer n0 = defaultLoadBalancer n \<and>
     instanceCount n0 = instanceCount n + of_nat (length strays) \<and>
     (\<forall>ip. ip \<notin> set strays \<longrightarrow> healthCheckTable n0 (KeyIP ip) \<noteq> None \<longrightarrow> healthCheckTable n (KeyIP ip) \<noteq> None) \<and>
     (\<forall>i. healthCheckTable n (KeyInt i) = None)"

lemma shadowed_byD:
  assumes "shadowed_by strays n n0"
  shows "int_wf randomLB NewRandomLoadBalancer rlb_inv n0" "instancesMap n0 = instancesMap n"
    "defaultLoadBalancer n0 = defaultLoadBalancer n" "instanceCount n0 = instanceCount n + of_nat (length strays)"
    "listed randomLB n = listed randomLB n0" "registered_total randomLB n = registered_total randomLB n0"
    "ip \<notin> set strays \<Longrightarrow> healthCheckTable n0 (KeyIP ip) \<noteq> None \<Longrightarrow> healthCheckTable n (KeyIP ip) \<noteq> None"
    "healthCheckTable n (KeyInt i) = None"
  using assms by (auto simp: shadowed_by_def listed_def registered_total_def)

lemma int_AddServiceIP_count:
  assumes "balancer_for n svc = Ret (Inr l)" and "rlb_AddInstance ip l = Ret (Inr l')"
  shows "int_AddServiceIP env randomLB svc ip n = (Ret None,
    n\<lparr>healthCheckTable := (healthCheckTable n)(KeyIP ip \<mapsto> checkHealth env ip ''''),
      instancesMap := (instancesMap n)(svc \<mapsto> l'), instanceCount := instanceCount n + 1\<rparr>)"
  using assms by (simp add: int_AddServiceIP_def randomLB_def)

lemma shadow_register:
  assumes sh: "shadowed_by strays n n0" and fresh: "\<forall>v. ip \<notin> set (listed randomLB n v)"
    and len: "Suc (length (listed randomLB n svc)) < 2 ^ 63"
    and run: "int_AddServiceIP env randomLB svc ip n = (r, n')"
  shows "\<exists>n0'. shadowed_by strays n' n0'"
proof -
  note S = shadowed_byD[OF sh]
  have default: "defaultLoadBalancer n = Some NewRandomLoadBalancer" using int_wfD(1)[OF S(1)] S(3) by simp
  then have bal: "balancer_for n svc = balancer_for n0 svc"
    using S(3) by (cases "instancesMap n svc") (simp_all add: balancer_for_def S(2) NewRandomLoadBalancer_def)
  from rlb.int_add[OF S(1) fresh[unfolded S(5)] len[unfolded S(5)], of env] obtain n0' where
    add0: "int_AddServiceIP env randomLB svc ip n0 = (Ret None, n0')"
    and wf0: "int_wf randomLB NewRandomLoadBalancer rlb_inv n0'" by blast
  from rlb.int_balancer_for[OF S(1), of svc] obtain l where l: "balancer_for n0 svc = Ret (Inr l)" by blast
  with add0 obtain l' where l': "rlb_AddInstance ip l = Ret (Inr l')"
    by (auto simp: int_AddServiceIP_def randomLB_def split: outcome.splits sum.splits)
  have "n0' = n0\<lparr>healthCheckTable := (healthCheckTable n0)(KeyIP ip \<mapsto> checkHealth env ip ''''),
      instancesMap := (instancesMap n0)(svc \<mapsto> l'), instanceCount := instanceCount n0 + 1\<rparr>"
    using add0 int_AddServiceIP_count[OF l l', of env] by simp
  moreover have "n' = n\<lparr>healthCheckTable := (healthCheckTable n)(KeyIP ip \<mapsto> checkHealth env ip ''''),
      instancesMap := (instancesMap n)(svc \<mapsto> l'), instanceCount := instanceCount n + 1\<rparr>"
    using run int_AddServiceIP_count[of n svc l ip l' env] l l' bal by simp
  ultimately have "shadowed_by strays n' n0'" using sh wf0 by (auto simp: shadowed_by_def)
  then show ?thesis by blast
qed

lemma shadow_deregister:
  assumes sh: "shadowed_by strays n n0" and run: "int_DeleteServiceIP randomLB svc ip n = (r, n')"
  shows "\<exists>n0'. shadowed_by ((if listed randomLB n svc = [] then [ip] else []) @ strays) n' n0'"
proof -
  note S = shadowed_byD[OF sh]
  show ?thesis
  proof (cases "listed randomLB n svc = []")
    case True
    have "n' = n\<lparr>healthCheckTable := (healthCheckTable n)(KeyIP ip := None), instanceCount := instanceCount n - 1\<rparr>"
    proof (cases "instancesMap n svc")
      case None
      with run show ?thesis by (simp add: int_DeleteServiceIP_def)
    next
      case (Some l)
      then have inv: "rlb_inv l" using int_wfD(3)[OF S(1)] S(2) by simp
      have empty: "rlb_ips l = []" using True Some by (simp add: listed_def randomLB_def rlb_GetIPs_def)
      then have "rlb_DeleteInstance ip l = Ret (Inr l)"
        using rlb_DeleteInstance_empty[of l ip] inv by (simp add: rlb_inv_size_0)
      moreover have "(instancesMap n)(svc \<mapsto> l) = instancesMap n" using Some by auto
      ultimately show ?thesis using run Some by (simp add: int_DeleteServiceIP_def Let_def randomLB_def)
    qed
    with True sh have "shadowed_by ((if listed randomLB n svc = [] then [ip] else []) @ strays) n' n0"
      by (auto simp: shadowed_by_def)
    then show ?thesis by blast
  next
    case False
    then obtain l where l: "instancesMap n svc = Some l" by (cases "instancesMap n svc") (auto simp: listed_def)
    have inv: "rlb_inv l" using int_wfD(3)[OF S(1)] S(2) l by simp
    have ips: "rlb_ips l = listed randomLB n svc" by (simp add: listed_def l randomLB_def rlb_GetIPs_def)
    show ?thesis
    proof (cases "ip \<in> set (listed randomLB n svc)")
      case absent: False
      have "rlb_DeleteInstance ip l = Panic ''index out of range''"
        using rlb_DeleteInstance_absent[OF inv] False absent by (simp add: ips)
      then have "n' = n" using run l by (simp add: int_DeleteServiceIP_def Let_def randomLB_def)
      with sh False show ?thesis by auto
    next
      case True
      from rlb.int_delete[OF S(1) True[unfolded S(5)]] obtain n0' where
        del0: "int_DeleteServiceIP randomLB svc ip n0 = (Ret None, n0')"
        and wf0: "int_wf randomLB NewRandomLoadBalancer rlb_inv n0'" by blast
      obtain l' where l': "rlb_DeleteInstance ip l = Ret (Inr l')"
        using rlb_DeleteInstance_present[OF inv] True by (simp add: ips)
      have "shadowed_by strays n' n0'"
        using sh wf0 run del0 l l' by (auto simp: shadowed_by_def int_DeleteServiceIP_def Let_def randomLB_def)
      with False show ?thesis by auto
    qed
  qed
qed

lemma resolve_frame:
  assumes wf: "int_wf randomLB NewRandomLoadBalancer rlb_inv n0" and same: "instancesMap n0 = instancesMap n"
    and run: "int_ResolveServiceEndpoint env randomLB svc n = (r, n')"
  shows "\<exists>p. n' = n\<lparr>randPos := p\<rparr>"
proof (cases "instancesMap n svc")
  case None
  then have "n' = n\<lparr>randPos := randPos n\<rparr>" using run by (simp add: int_ResolveServiceEndpoint_def)
  then show ?thesis ..
next
  case (Some l)
  have inv: "rlb_inv l" using int_wfD(3)[OF wf] same Some by simp
  have loop: "int_resolve_loop env randomLB l (Size randomLB l) 0 n = (r, n')"
    using run Some by (simp add: int_ResolveServiceEndpoint_def)
  show ?thesis
  proof (cases "GetIPs randomLB l = []")
    case True
    from rlb.int_resolve_empty[OF inv True] loop have "n' = n\<lparr>randPos := randPos n\<rparr>" by (metis prod.inject surjective update_convs(6))
    then show ?thesis ..
  next
    case False
    have "length (GetIPs randomLB l) < 2 ^ 63"
      using int_wfD(5)[OF wf, of svc] same Some by (simp add: listed_def)
    from rlb.int_resolve_loop_find[OF inv False this, of env "Size randomLB l" 0 n] loop
    show ?thesis by (auto split: option.splits)
  qed
qed

lemma shadow_step:
  assumes "int_step n new n'" and "shadowed_by strays n n0"
  shows "\<exists>n0'. shadowed_by (new @ strays) n' n0'"
  using assms(1)
proof (cases rule: int_step.cases)
  case (register ip svc env r)
  with shadow_register[OF assms(2), of ip svc env r n'] show ?thesis by simp
next
  case (deregister svc ip r)
  with shadow_deregister[OF assms(2), of svc ip r n'] show ?thesis by simp
next
  case (remove_service svc r)
  note S = shadowed_byD[OF assms(2)]
  obtain r0 n0' where del0: "int_DeleteService randomLB svc n0 = (r0, n0')" by fastforce
  note wf0 = conjunct1[OF int_wf_delete_service[OF S(1) del0]]
  from int_DeleteService_outcome[of randomLB svc n0] del0 int_DeleteService_outcome[of randomLB svc n] remove_service(2)
  have "shadowed_by (new @ strays) n' n0'"
    using assms(2) wf0 S(5) remove_service(1) by (auto simp: shadowed_by_def)
  then show ?thesis by blast
next
  case (resolve env svc r)
  from resolve_frame[OF shadowed_byD(1,2)[OF assms(2)] resolve(2)] obtain p where "n' = n\<lparr>randPos := p\<rparr>" ..
  with assms(2) resolve(1) have "shadowed_by (new @ strays) n' n0" by (simp add: shadowed_by_def)
  then show ?thesis by blast
next
  case (health keys env r)
  note fr = int_health_pass_frame[OF health(3,2)]
  have "healthCheckTable n' k = None \<longleftrightarrow> healthCheckTable n k = None" for k using fr by (metis domIff)
  with assms(2) fr health(1) have "shadowed_by (new @ strays) n' n0" by (simp add: shadowed_by_def)
  then show ?thesis by blast
qed

lemma int_history_shadowed: "int_history strays n \<Longrightarrow> \<exists>n0. shadowed_by strays n n0"
proof (induction rule: int_history.induct)
  case (created n)
  have "\<forall>opts. \<exists>l. NewRandomLoadBalancer opts = Inr l" by (simp add: NewRandomLoadBalancer_def)
  from int_new_wf[OF this, of randomLB rlb_inv] created have "shadowed_by [] n n" by (auto simp: shadowed_by_def)
  then show ?case ..
next
  case (stepped strays n new n')
  then show ?case using shadow_step by blast
qed

lemma int_wf_health_pass_returns:
  assumes wf: "int_wf L newLb lbInv n" and few: "registered_total L n < 2 ^ 64 - 1"
    and keys: "\<forall>k\<in>fst ` set keys. healthCheckTable n k \<noteq> None"
  shows "\<exists>ds n'. int_health_pass env keys n = (Ret ds, n') \<and> int_wf L newLb lbInv n' \<and>
    registered_total L n' = registered_total L n"
proof -
  have "unat (instanceCount n) = registered_total L n"
    using few by (simp add: int_wfD(9)[OF wf] unat_of_nat)
  with few have "instanceCount n \<noteq> - 1"
    by (auto simp: unsigned_minus_1_eq_mask mask_eq_exp_minus_1)
  moreover have "\<forall>k\<in>fst ` set keys. \<exists>ip. k = KeyIP ip"
    using keys int_wfD(8)[OF wf] by (metis any_key.exhaust)
  ultimately obtain ds n' where run: "int_health_pass env keys n = (Ret ds, n')"
    using int_health_pass_returns by metis
  with int_wf_health_pass[OF wf run keys] int_health_pass_frame[OF run keys] show ?thesis
    by (simp add: registered_total_def)
qed

lemma int_RunHealthChecks_no_result:
  assumes keys: "\<And>i m. \<forall>k\<in>fst ` set (snd (rounds i m)). healthCheckTable m k \<noteq> None"
    and res: "int_RunHealthChecks rounds i n = Some r"
  shows "rounds = rounds \<and> int_wf L newLb lbInv n \<longrightarrow> \<not> registered_total L n < 2 ^ 64 - 1"
proof (rule int_RunHealthChecks.raw_induct
    [where P = "\<lambda>rs i n r. rs = rounds \<and> int_wf L newLb lbInv n \<longrightarrow> \<not> registered_total L n < 2 ^ 64 - 1",
     OF _ res], rule impI, elim conjE)
  fix f rs i n r
  assume IH: "\<And>rs i n r. f rs i n = Some r \<Longrightarrow>
      rs = rounds \<and> int_wf L newLb lbInv n \<longrightarrow> \<not> registered_total L n < 2 ^ 64 - 1"
    and eq: "(case int_health_pass (fst (rs i n)) (snd (rs i n)) n of
        (Ret ds, n') \<Rightarrow> f rs (Suc i) n'
      | (Panic msg, n') \<Rightarrow> Some (Panic msg, n')
      | (Blocked, n') \<Rightarrow> Some (Blocked, n')) = Some r"
    and rs: "rs = rounds" and wf: "int_wf L newLb lbInv n"
  show "\<not> registered_total L n < 2 ^ 64 - 1"
  proof
    assume few: "registered_total L n < 2 ^ 64 - 1"
    from int_wf_health_pass_returns[OF wf few keys[of i n]] obtain ds n' where
      "int_health_pass (fst (rs i n)) (snd (rs i n)) n = (Ret ds, n')"
      "int_wf L newLb lbInv n'" "registered_total L n' = registered_total L n"
      unfolding rs by metis
    with eq IH[of rs "Suc i" n' r] few rs show False by simp
  qed
qed

section \<open>Properties\<close>

text \<open>
  C8: In every history of registrations of new addresses, deregistrations of any address of any
  service, deletions of services, resolutions and health passes, \<open>instanceCount\<close> falls short of the
  number of registered addresses by exactly one for every deregistration from a service that had no
  addresses; no address is registered twice, and every registered address has an entry in the health
  table, unless such a deregistration named it.
\<close>

theorem internal_bookkeeping:
  assumes "int_history strays n"
  shows "instanceCount n + of_nat (length strays) = of_nat (registered_total randomLB n) \<and>
    (\<forall>svc. distinct (listed randomLB n svc)) \<and>
    (\<forall>svc svc'. svc \<noteq> svc' \<longrightarrow> set (listed randomLB n svc) \<inter> set (listed randomLB n svc') = {}) \<and>
    (\<forall>svc ip. ip \<in> set (listed randomLB n svc) \<longrightarrow> ip \<notin> set strays \<longrightarrow> healthCheckTable n (KeyIP ip) \<noteq> None)"
proof -
  from int_history_shadowed[OF assms] obtain n0 where sh: "shadowed_by strays n n0" ..
  note S = shadowed_byD[OF sh] and W = int_wfD[OF shadowed_byD(1)[OF sh]]
  show ?thesis using W(4,6,7,9) S(4-7) by simp
qed

lemma int_example_history:
  "\<exists>n. int_history [] n \<and> listed randomLB n = (\<lambda>_. [])(''f'' := [''10.0.0.2''])"
proof -
  have "\<forall>opts. \<exists>l. NewRandomLoadBalancer opts = Inr l" by (simp add: NewRandomLoadBalancer_def)
  from int_new_wf[OF this, of randomLB rlb_inv] obtain n where
    n: "NewInternalNetworkContoller NewRandomLoadBalancer [] = Inr n"
      "int_wf randomLB NewRandomLoadBalancer rlb_inv n" "listed randomLB n = (\<lambda>_. [])" by blast
  define env where "env = \<lparr>http_Get = (\<lambda>_. Some 200), url_Parse = Inr, rand_draw = id\<rparr>"
  have "\<forall>v. ''10.0.0.2'' \<notin> set (listed randomLB n v)"
    "Suc (length (listed randomLB n ''f'')) < 2 ^ 63" by (simp_all add: n(3))
  note add = this
  from rlb.int_add[OF n(2) add, of env] obtain n' where
    n': "int_AddServiceIP env randomLB ''f'' ''10.0.0.2'' n = (Ret None, n')"
      "listed randomLB n' = (\<lambda>_. [])(''f'' := [''10.0.0.2''])"
    unfolding n(3) by auto
  from int_history.stepped[OF int_history.created[OF n(1)] int_step.register[OF add n'(1)]] have "int_history [] n'" by simp
  with n'(2) show ?thesis by blast
qed

text \<open>One address is registered, and another is deregistered from a service that was never there.\<close>

theorem internal_bookkeeping_witness:
  "\<exists>n. int_history [''10.0.0.9''] n \<and> listed randomLB n ''f'' = [''10.0.0.2''] \<and>
    instanceCount n + 1 = of_nat (registered_total randomLB n) \<and>
    healthCheckTable n (KeyIP ''10.0.0.2'') \<noteq> None"
proof -
  obtain n where n: "int_history [] n" "listed randomLB n = (\<lambda>_. [])(''f'' := [''10.0.0.2''])"
    using int_example_history by blast
  obtain r n' where del: "int_DeleteServiceIP randomLB ''g'' ''10.0.0.9'' n = (r, n')" by fastforce
  from int_history.stepped[OF n(1) int_step.deregister[OF del]] n(2) have hist: "int_history [''10.0.0.9''] n'" by simp
  from int_history_shadowed[OF n(1)] obtain n0 where sh: "shadowed_by [] n n0" ..
  have empty: "listed randomLB n ''g'' = []" by (simp add: n(2))
  have "instancesMap n' = instancesMap n"
  proof (cases "instancesMap n ''g''")
    case None
    with del show ?thesis by (auto simp: int_DeleteServiceIP_def)
  next
    case (Some l)
    then have inv: "rlb_inv l" using int_wfD(3)[OF shadowed_byD(1)[OF sh]] shadowed_byD(2)[OF sh] by simp
    have "rlb_ips l = []" using empty Some by (simp add: listed_def randomLB_def rlb_GetIPs_def)
    then have "rlb_DeleteInstance ''10.0.0.9'' l = Ret (Inr l)"
      using rlb_DeleteInstance_empty[of l] inv by (simp add: rlb_inv_size_0)
    moreover have "(instancesMap n)(''g'' \<mapsto> l) = instancesMap n" using Some by auto
    ultimately show ?thesis using del Some by (auto simp: int_DeleteServiceIP_def Let_def randomLB_def)
  qed
  then have lst: "listed randomLB n' ''f'' = [''10.0.0.2'']" using n(2) by (simp add: listed_def fun_eq_iff)
  then have "''10.0.0.2'' \<in> set (listed randomLB n' ''f'')" by simp
  moreover have "''10.0.0.2'' \<notin> set [''10.0.0.9'']" by simp
  ultimately have "healthCheckTable n' (KeyIP ''10.0.0.2'') \<noteq> None" using internal_bookkeeping[OF hist] by blast
  with internal_bookkeeping[OF hist] lst hist show ?thesis by (intro exI[of _ n']) simp
qed

text \<open>
  C9: Resolving a service with registered addresses draws addresses at random until one is recorded
  as healthy, at most as often as there are addresses but at least up to five times, and returns the
  watchdog URL of that address; when every draw misses it reports that no healthy instance was found.
  Only the generator advances.
\<close>

theorem resolve_first_healthy_draw:
  assumes "int_wf randomLB NewRandomLoadBalancer rlb_inv n" and "listed randomLB n svc \<noteq> []"
  shows "int_ResolveServiceEndpoint env randomLB svc n =
    (case find (\<lambda>k. is_healthy n (drawn_ip env (listed randomLB n svc) (randPos n + k)))
            [0..<max (length (listed randomLB n svc)) 5] of
       None \<Rightarrow> (Ret (Inl (Errorf ''healthy instance not found'')),
                n\<lparr>randPos := randPos n + max (length (listed randomLB n svc)) 5\<rparr>)
     | Some k \<Rightarrow> (Ret (watchdog_url env (drawn_ip env (listed randomLB n svc) (randPos n + k))),
                n\<lparr>randPos := Suc (randPos n + k)\<rparr>))"
  by (rule rlb.int_resolve_spec[OF assms])

definition int_example :: "RandomLoadBalancer InternalNetworkContoller" where
  "int_example = \<lparr>instanceCount = 2,
     healthCheckTable = [KeyIP ''10.0.0.2'' \<mapsto> False, KeyIP ''10.0.0.3'' \<mapsto> True],
     instancesMap = [''f'' \<mapsto> \<lparr>rlb_size = 2, rlb_ips = [''10.0.0.2'', ''10.0.0.3'']\<rparr>],
     defaultLoadBalancer = Some NewRandomLoadBalancer, lbOpts = [], randPos = 0\<rparr>"

lemma int_example_wf: "int_wf randomLB NewRandomLoadBalancer rlb_inv int_example"
  by (simp add: int_wf_def int_example_def listed_def randomLB_def rlb_GetIPs_def rlb_inv_def
      registered_total_def map_total_def) metis

theorem resolve_first_healthy_draw_witness:
  "fst (int_ResolveServiceEndpoint \<lparr>http_Get = (\<lambda>_. None), url_Parse = Inr, rand_draw = id\<rparr>
      randomLB ''f'' int_example) = Ret (Inr ''http://10.0.0.3:8123'')"
proof -
  have l: "listed randomLB int_example ''f'' = [''10.0.0.2'', ''10.0.0.3'']"
    by (simp add: listed_def int_example_def randomLB_def rlb_GetIPs_def)
  then have "listed randomLB int_example ''f'' \<noteq> []" by simp
  note spec = resolve_first_healthy_draw[OF int_example_wf this, unfolded l]
  let ?env = "\<lparr>http_Get = (\<lambda>_. None), url_Parse = Inr, rand_draw = id\<rparr>"
  have pos: "randPos int_example = 0" by (simp add: int_example_def)
  have "[0..<max (length [''10.0.0.2'', ''10.0.0.3'']) 5] = [0, 1, 2, 3, 4]"
    by (simp add: numeral_eq_Suc)
  moreover have "drawn_ip ?env [''10.0.0.2'', ''10.0.0.3''] 0 = ''10.0.0.2''"
    "drawn_ip ?env [''10.0.0.2'', ''10.0.0.3''] 1 = ''10.0.0.3''" by (simp_all add: drawn_ip_def)
  moreover have "\<not> is_healthy int_example ''10.0.0.2''" "is_healthy int_example ''10.0.0.3''"
    by (simp_all add: is_healthy_def int_example_def)
  ultimately show ?thesis
    unfolding spec pos by (simp add: watchdog_url_def)
qed

text \<open>
  The number of available addresses of a known service is the number of its registered addresses
  whose last health check succeeded; an unknown service is an error.
\<close>

theorem available_counts_healthy:
  assumes "int_wf randomLB NewRandomLoadBalancer rlb_inv n"
  shows "int_AvailableIPs randomLB svc n =
    (if instancesMap n svc = None then Inl (Errorf (''service '' @ svc @ '' not found''))
     else Inr (of_nat (length (filter (is_healthy n) (listed randomLB n svc)))))"
  by (rule rlb.int_available[OF assms])

theorem available_counts_healthy_witness:
  "int_AvailableIPs randomLB ''f'' int_example = Inr 1"
  using available_counts_healthy[OF int_example_wf, of "''f''"]
  by (simp add: is_healthy_def listed_def randomLB_def rlb_GetIPs_def int_example_def)

text \<open>
  C13: \<open>RunHealthChecks\<close> never returns, whatever the health checks answer and even when the
  context is cancelled from the start: as long as fewer than \<open>2 ^ 64 - 1\<close> addresses are registered
  and its passes visit keys of the table, no round ends it.
\<close>

theorem health_loop_never_returns:
  assumes "int_wf randomLB NewRandomLoadBalancer rlb_inv n"
    and "registered_total randomLB n < 2 ^ 64 - 1"
    and "\<And>i m. \<forall>k\<in>fst ` set (snd (rounds i m)). healthCheckTable m k \<noteq> None"
  shows "int_RunHealthChecks rounds i n = None"
  using int_RunHealthChecks_no_result[of rounds i n _ randomLB NewRandomLoadBalancer rlb_inv] assms
  by (metis not_None_eq)

theorem health_loop_never_returns_witness:
  "int_RunHealthChecks (\<lambda>i m. (\<lparr>http_Get = (\<lambda>_. None), url_Parse = Inr, rand_draw = id\<rparr>,
      if healthCheckTable m (KeyIP ''10.0.0.2'') = None then [] else [(KeyIP ''10.0.0.2'', True)]))
     0 int_example = None"
proof (rule health_loop_never_returns[OF int_example_wf])
  show "registered_total randomLB int_example < 2 ^ 64 - 1"
    by (simp add: registered_total_def map_total_def int_example_def randomLB_def rlb_GetIPs_def)
qed simp

text \<open>
  Deregistering addresses of an unknown service is not refused: it still decrements
  \<open>instanceCount\<close>. Two such calls on a new controller, then one registration, leave the count at
  \<open>2 ^ 64 - 1\<close>, and the next health pass over the registered address divides by zero.
\<close>

theorem unknown_deregistration_breaks_health_loop:
  "\<exists>n0 n1 n2 n3 n4.
     NewInternalNetworkContoller NewRandomLoadBalancer [] = Inr n0 \<and>
     int_DeleteServiceIP randomLB svc ip n0 = (Ret None, n1) \<and>
     int_DeleteServiceIP randomLB svc ip' n1 = (Ret None, n2) \<and>
     int_AddServiceIP env randomLB svc ip n2 = (Ret None, n3) \<and>
     instanceCount n3 = - 1 \<and>
     int_health_pass env [(KeyIP ip, False)] n3 = (Panic ''integer divide by zero'', n4)"
  by (simp add: NewInternalNetworkContoller_def zeroController_def int_DeleteServiceIP_def
      int_AddServiceIP_def balancer_for_def NewRandomLoadBalancer_def randomLB_def
      rlb_AddInstance_def healthDelay_cases Let_def)

text \<open>
  C14: \<open>DeleteService\<close> reports "not found" whether the service exists or not. It does forget the
  service and takes its addresses off \<open>instanceCount\<close>, but their entries stay in the health table,
  so the health loop keeps probing them.
\<close>

theorem DeleteService_always_fails:
  "\<exists>n'. int_DeleteService L svc n =
       (Ret (Some (Errorf (''service '' @ svc @ '' not found''))), n') \<and>
     instancesMap n' = (instancesMap n)(svc := None) \<and>
     instanceCount n' = instanceCount n - of_nat (length (listed L n svc)) \<and>
     (\<forall>ip. healthCheckTable n' (KeyIP ip) = healthCheckTable n (KeyIP ip))"
  using int_DeleteService_outcome[of L svc n] by metis

end
