(* ===== verification/CaddyTools.thy ===== *)
theory CaddyTools
  imports GoPrelude
begin

text \<open>
  The translation between service names and routes of \<open>pkg/network/caddy/tools.go\<close>: the regular
  expression \<open>/function/(\w+)\<close> is written out as the leftmost search that
  \<open>FindStringSubmatch\<close> performs.
\<close>

section \<open>Definitions\<close>

definition is_word :: "char \<Rightarrow> bool" where
  "is_word c \<longleftrightarrow>
     c \<in> set ''0123456789ABCDEFGHIJKLMNOPQRSTUVWXYZ_abcdefghijklmnopqrstuvwxyz''"

fun strip_prefix :: "string \<Rightarrow> string \<Rightarrow> string option" where
  "strip_prefix [] s = Some s"
| "strip_prefix (p # ps) [] = None"
| "strip_prefix (p # ps) (c # cs) = (if p = c then strip_prefix ps cs else None)"

text \<open>
  The match at the leftmost position where the literal is followed by a word character; the group is
  the longest run of word characters.
\<close>

fun match_service :: "string \<Rightarrow> string option" where
  "match_service [] = None"
| "match_service (c # cs) =
     (case strip_prefix ''/function/'' (c # cs) of
        Some rest \<Rightarrow> (let name = takeWhile is_word rest
                      in if name \<noteq> [] then Some name else match_service cs)
      | None \<Rightarrow> match_service cs)"

definition getServiceName :: "string \<Rightarrow> go_error + string" where
  "getServiceName s =
     (case match_service s of
        None \<Rightarrow> Inl (Errorf ''no service name found in the input string'')
      | Some serviceName \<Rightarrow> Inr serviceName)"

definition URLToService :: "string \<Rightarrow> string" where
  "URLToService url = (case getServiceName url of Inl err \<Rightarrow> url | Inr serviceName \<Rightarrow> serviceName)"

definition ServiceToURL :: "string \<Rightarrow> string" where
  "ServiceToURL service =
     (if contains_char (CHR ''/'') service then service else ''/function/'' @ service)"

section \<open>The search\<close>

lemma strip_prefix_append [simp]: "strip_prefix p (p @ s) = Some s"
  by (induction p) auto

lemma strip_prefix_Some: "strip_prefix p s = Some r \<Longrightarrow> s = p @ r"
  by (induction p s rule: strip_prefix.induct) (auto split: if_splits)

lemma strip_prefix_no_slash:
  "CHR ''/'' \<notin> set s \<Longrightarrow> strip_prefix ''/function/'' s = None"
  by (cases s) auto

lemma strip_prefix_one_slash:
  "CHR ''/'' \<notin> set s \<Longrightarrow> strip_prefix ''/function/'' (CHR ''/'' # s) = None"
proof (rule ccontr)
  assume s: "CHR ''/'' \<notin> set s" and "strip_prefix ''/function/'' (CHR ''/'' # s) \<noteq> None"
  then obtain r where "CHR ''/'' # s = ''/function/'' @ r" by (metis not_Some_eq strip_prefix_Some)
  then have "s = ''function/'' @ r" by simp
  with s show False by simp
qed

lemma match_service_no_slash: "CHR ''/'' \<notin> set s \<Longrightarrow> match_service s = None"
proof (induction s)
  case Nil
  then show ?case by simp
next
  case (Cons c s)
  then show ?case using strip_prefix_no_slash[of "c # s"] by simp
qed

lemma match_service_plain:
  assumes "CHR ''/'' \<notin> set s"
  shows "match_service (''/function/'' @ s) =
    (if takeWhile is_word s = [] then None else Some (takeWhile is_word s))"
proof -
  let ?w = "takeWhile is_word s"
  have step: "match_service (''/function/'' @ s) =
      (if ?w \<noteq> [] then Some ?w else match_service (''function/'' @ s))"
    using strip_prefix_append[of "''/function/''" s] by (simp add: Let_def)
  have "match_service (''function/'' @ s) = match_service (CHR ''/'' # s)" by simp
  also have "\<dots> = None"
    using strip_prefix_one_slash[OF assms] match_service_no_slash[OF assms]
    by (simp del: strip_prefix.simps)
  finally show ?thesis using step by simp
qed

lemma URLToService_ServiceToURL:
  assumes "CHR ''/'' \<notin> set s"
  shows "URLToService (ServiceToURL s) =
    (if takeWhile is_word s = [] then ''/function/'' @ s else takeWhile is_word s)"
  using match_service_plain[OF assms] assms
  by (simp add: URLToService_def getServiceName_def ServiceToURL_def contains_char_def)

lemma takeWhile_eq_all: "takeWhile P s = s \<longleftrightarrow> (\<forall>c\<in>set s. P c)"
  by (induction s) auto

text \<open>A function path is \<open>/function/\<close> followed by a word character.\<close>

definition has_function_path :: "string \<Rightarrow> bool" where
  "has_function_path s \<longleftrightarrow> (\<exists>a c b. s = a @ ''/function/'' @ c # b \<and> is_word c)"

lemma match_service_Some_iff: "match_service s \<noteq> None \<longleftrightarrow> has_function_path s"
  unfolding has_function_path_def
proof (induction s)
  case Nil
  then show ?case by simp
next
  case (Cons x s)
  have here: "(\<exists>rest. strip_prefix ''/function/'' (x # s) = Some rest \<and> takeWhile is_word rest \<noteq> []) \<longleftrightarrow>
      (\<exists>c b. x # s = ''/function/'' @ c # b \<and> is_word c)" (is "?l \<longleftrightarrow> ?r")
  proof
    assume ?l
    then obtain rest where r: "x # s = ''/function/'' @ rest" "takeWhile is_word rest \<noteq> []"
      using strip_prefix_Some by blast
    then show ?r by (cases rest) (auto split: if_splits)
  next
    assume ?r
    then obtain c b where r: "x # s = ''/function/'' @ c # b" "is_word c" by blast
    then have "strip_prefix ''/function/'' (x # s) = Some (c # b)" by (simp only: strip_prefix_append)
    with r(2) show ?l by simp
  qed
  have step: "match_service (x # s) \<noteq> None \<longleftrightarrow>
      (\<exists>rest. strip_prefix ''/function/'' (x # s) = Some rest \<and> takeWhile is_word rest \<noteq> []) \<or> match_service s \<noteq> None"
    by (simp add: Let_def del: strip_prefix.simps split: option.split)
  have split: "(\<exists>a c b. x # s = a @ ''/function/'' @ c # b \<and> is_word c) \<longleftrightarrow>
      (\<exists>c b. x # s = ''/function/'' @ c # b \<and> is_word c) \<or> (\<exists>a c b. s = a @ ''/function/'' @ c # b \<and> is_word c)"
    (is "?any \<longleftrightarrow> ?now \<or> ?later")
  proof
    assume ?any
    then obtain a c b where r: "x # s = a @ ''/function/'' @ c # b" "is_word c" by blast
    show "?now \<or> ?later"
    proof (cases a)
      case Nil
      with r have "x # s = ''/function/'' @ c # b" by simp
      with r(2) show ?thesis by blast
    next
      case (Cons y a')
      with r(1) have "s = a' @ ''/function/'' @ c # b" by simp
      with r(2) show ?thesis by blast
    qed
  next
    assume "?now \<or> ?later"
    then show ?any by (metis append_Cons append_Nil)
  qed
  show ?case unfolding step split here Cons.IH ..
qed

lemma match_service_word: "match_service s = Some name \<Longrightarrow> \<forall>c\<in>set name. is_word c"
  by (induction s) (auto simp: Let_def dest: set_takeWhileD simp del: strip_prefix.simps split: option.splits if_splits)

lemma slash_no_word [simp]: "\<not> is_word (CHR ''/'')"
  by (simp add: is_word_def)

section \<open>Properties\<close>

text \<open>
  C17: The route made for a service name gives the name back exactly when the name is a non-empty run
  of letters, digits and underscores, or contains a slash and nowhere \<open>/function/\<close> followed by one of
  these characters. A hyphen, which is usual in function names, already loses the rest of the name.
\<close>

theorem service_url_roundtrip_iff:
  "URLToService (ServiceToURL s) = s \<longleftrightarrow>
    (if CHR ''/'' \<in> set s then \<not> has_function_path s
     else s \<noteq> [] \<and> (\<forall>c\<in>set s. is_word c))"
proof (cases "CHR ''/'' \<in> set s")
  case slash: True
  have "match_service s \<noteq> Some s" using match_service_word[of s s] slash slash_no_word by blast
  then have "URLToService (ServiceToURL s) = s \<longleftrightarrow> match_service s = None"
    using slash by (auto simp: URLToService_def getServiceName_def ServiceToURL_def contains_char_def split: option.split)
  then show ?thesis using match_service_Some_iff[of s] slash by auto
next
  case plain: False
  note url = URLToService_ServiceToURL[OF plain]
  show ?thesis
  proof (cases "takeWhile is_word s = []")
    case True
    then have "s = [] \<or> \<not> is_word (hd s)" by (cases s) (auto split: if_splits)
    moreover have "''/function/'' @ s \<noteq> s" by (metis append_self_conv2 list.discI)
    ultimately show ?thesis using url True plain by (cases s) auto
  next
    case False
    then show ?thesis using url takeWhile_eq_all[of is_word s] plain by (auto split: if_splits)
  qed
qed

theorem service_url_roundtrip_iff_witness:
  "URLToService (ServiceToURL ''resize_2'') = ''resize_2'' \<and>
   URLToService (ServiceToURL ''my-func'') \<noteq> ''my-func'' \<and>
   URLToService (ServiceToURL ''/api/function/x'') \<noteq> ''/api/function/x''"
proof -
  have "''/api/function/x'' = ''/api'' @ ''/function/'' @ CHR ''x'' # [] \<and> is_word (CHR ''x'')"
    by (simp add: is_word_def)
  then have "has_function_path ''/api/function/x''" unfolding has_function_path_def by blast
  then show ?thesis
    using service_url_roundtrip_iff[of "''resize_2''"] service_url_roundtrip_iff[of "''my-func''"]
      service_url_roundtrip_iff[of "''/api/function/x''"]
    by (simp add: is_word_def)
qed

end
