(* ===== verification/Caddy.thy ===== *)
theory Caddy
  imports NetworkApi CaddyTools "HOL-Library.List_Lexorder" "HOL-Library.Char_ord"
begin

text \<open>
  The controller of \<open>pkg/network/caddy\<close> (\<open>caddy.go\<close>, \<open>config.go\<close>): a cache of the upstream
  addresses of each service, pushed to a Caddy server as a list of routes after every change. The
  state also holds the routes of the Caddy server itself, which a PATCH request replaces when the
  server accepts it. The mutex of the controller is released by a deferred call on every path and
  never held across another lock, so the operations are modelled as atomic.
\<close>

section \<open>Data\<close>

record activeHealthCheck =
  ExpectStatus :: "16 word"
  Interval :: "64 word"
  Timeout :: "64 word"
  URI :: string

record healthChecks =
  Active :: activeHealthCheck

record lbSelectionPolicy =
  Policy :: string

record lbconfig =
  SelectionConfig :: lbSelectionPolicy
  TryDuration :: "64 word"

record dialconfig =
  Dial :: string

record pathExpression =
  Path :: "string list"

record handlerConfig =
  Handler :: string
  HealthCheck :: healthChecks
  LoadBalancing :: lbconfig
  Upstreams :: "dialconfig list"

record routeConfig =
  Handle :: "handlerConfig list"
  Match :: "pathExpression list"

definition caddyRoutesURL :: string where
  "caddyRoutesURL = ''http://localhost:2019/config/apps/http/servers/srv0/routes/1/handle/0/routes''"

definition defaultHealthChecks :: healthChecks where
  "defaultHealthChecks = \<lparr>Active = \<lparr>ExpectStatus = 200, Interval = 10000000000,
     Timeout = 30000000000, URI = ''/''\<rparr>\<rparr>"

definition defaultlbConfig :: lbconfig where
  "defaultlbConfig = \<lparr>SelectionConfig = \<lparr>Policy = ''first''\<rparr>, TryDuration = 1000000000\<rparr>"

text \<open>
  The server: the answer to a PATCH of the routes and to a GET of them (a transport error, or a status
  and, for GET, a body that may fail to be read), the decoding of that body, \<open>url.Parse\<close>, and the
  order in which \<open>range\<close> visits the cache.
\<close>

record caddy_env =
  caddy_Patch :: "string \<Rightarrow> routeConfig list \<Rightarrow> go_error + nat"
  caddy_Get :: "string \<Rightarrow> go_error + nat \<times> (go_error + string)"
  caddy_Unmarshal :: "string \<Rightarrow> go_error + routeConfig list"
  caddy_url_Parse :: "string \<Rightarrow> go_error + URL"
  caddy_order :: "(string \<rightharpoonup> string list) \<Rightarrow> string list"

record CaddyController =
  serviceIPCache :: "string \<rightharpoonup> string list"
  permanentRoutes :: "routeConfig list"
  serverRoutes :: "routeConfig list"

section \<open>Operations\<close>

text \<open>
  \<open>GetUKFaaSRoutes\<close>. In the branch of a status other than 200 the code returns \<open>err\<close>, which is nil
  there.
\<close>

definition GetUKFaaSRoutes :: "caddy_env \<Rightarrow> go_error + routeConfig list" where
  "GetUKFaaSRoutes env =
     (case caddy_Get env caddyRoutesURL of
        Inl err \<Rightarrow> Inl err
      | Inr (status, body) \<Rightarrow>
          (if status \<noteq> 200 then Inr []
           else case body of
                  Inl err \<Rightarrow> Inl err
                | Inr responseBody \<Rightarrow> caddy_Unmarshal env responseBody))"

definition NewCaddyController :: "caddy_env \<Rightarrow> routeConfig list \<Rightarrow> go_error + CaddyController" where
  "NewCaddyController env server =
     (case GetUKFaaSRoutes env of
        Inl err \<Rightarrow> Inl err
      | Inr routes \<Rightarrow> Inr \<lparr>serviceIPCache = Map.empty, permanentRoutes = routes, serverRoutes = server\<rparr>)"

definition service_route :: "string \<Rightarrow> string list \<Rightarrow> routeConfig" where
  "service_route service ips =
     \<lparr>Handle = [\<lparr>Handler = ''reverse_proxy'', HealthCheck = defaultHealthChecks,
                 LoadBalancing = defaultlbConfig, Upstreams = map (\<lambda>ip. \<lparr>Dial = ip\<rparr>) ips\<rparr>],
      Match = [\<lparr>Path = [ServiceToURL service]\<rparr>]\<rparr>"

fun add_routes ::
  "(string \<rightharpoonup> string list) \<Rightarrow> string list \<Rightarrow> routeConfig list \<Rightarrow> routeConfig list" where
  "add_routes cache [] updateRoutes = updateRoutes"
| "add_routes cache (service # services) updateRoutes =
     add_routes cache services (updateRoutes @ [service_route service (the (cache service))])"

definition getConfig :: "caddy_env \<Rightarrow> CaddyController \<Rightarrow> routeConfig list" where
  "getConfig env c =
     add_routes (serviceIPCache c) (caddy_order env (serviceIPCache c)) (permanentRoutes c)"

text \<open>
  \<open>reloadConfig\<close>: marshalling and building the request cannot fail on these values. The status of the
  response is logged and not looked at; the server takes the routes only when it answers 200.
\<close>

definition reloadConfig :: "caddy_env \<Rightarrow> (CaddyController, go_error option) go" where
  "reloadConfig env c =
     (let updateRoutes = getConfig env c
      in case caddy_Patch env caddyRoutesURL updateRoutes of
           Inl err \<Rightarrow> (Ret (Some err), c)
         | Inr status \<Rightarrow>
             (Ret None, if status = 200 then c\<lparr>serverRoutes := updateRoutes\<rparr> else c))"

definition caddy_AddServiceIP ::
  "caddy_env \<Rightarrow> string \<Rightarrow> IP \<Rightarrow> (CaddyController, go_error option) go" where
  "caddy_AddServiceIP env service ipaddr c =
     (let url = ipaddr @ '':'' @ itoa WatchdogPort
      in case serviceIPCache c service of
           None \<Rightarrow> reloadConfig env (c\<lparr>serviceIPCache := (serviceIPCache c)(service \<mapsto> [url])\<rparr>)
         | Some ips \<Rightarrow>
             reloadConfig env (c\<lparr>serviceIPCache := (serviceIPCache c)(service \<mapsto> ips @ [url])\<rparr>))"

definition caddy_DeleteService :: "caddy_env \<Rightarrow> string \<Rightarrow> (CaddyController, go_error option) go" where
  "caddy_DeleteService env service c =
     (case serviceIPCache c service of
        None \<Rightarrow> (Ret (Some (Errorf ''not found'')), c)
      | Some _ \<Rightarrow> reloadConfig env (c\<lparr>serviceIPCache := (serviceIPCache c)(service := None)\<rparr>))"

text \<open>\<open>strings.Split(ip, ":")[0]\<close>\<close>

definition url_host :: "string \<Rightarrow> string" where
  "url_host url = hd (split_on (CHR '':'') url)"

definition caddy_DeleteServiceIP ::
  "caddy_env \<Rightarrow> string \<Rightarrow> IP \<Rightarrow> (CaddyController, go_error option) go" where
  "caddy_DeleteServiceIP env service ipaddr c =
     (case serviceIPCache c service of
        None \<Rightarrow> (Ret (Some (Errorf ''not found'')), c)
      | Some urls \<Rightarrow>
          (let ips = filter (\<lambda>ip. url_host ip \<noteq> ipaddr) urls
           in reloadConfig env
                (if ips = [] then c\<lparr>serviceIPCache := (serviceIPCache c)(service := None)\<rparr>
                 else c\<lparr>serviceIPCache := (serviceIPCache c)(service \<mapsto> ips)\<rparr>)))"

definition caddy_ResolveServiceEndpoint ::
  "caddy_env \<Rightarrow> string \<Rightarrow> (CaddyController, go_error + URL) go" where
  "caddy_ResolveServiceEndpoint env service c =
     (case serviceIPCache c service of
        Some _ \<Rightarrow>
          (Ret (caddy_url_Parse env (''http://localhost:'' @ itoa GatewayPort @ ServiceToURL service)), c)
      | None \<Rightarrow> (Ret (Inl (Errorf (''service not found : '' @ service))), c))"

definition caddy_AvailableIPs :: "string \<Rightarrow> CaddyController \<Rightarrow> go_error + 64 word" where
  "caddy_AvailableIPs serviceName c =
     (case serviceIPCache c serviceName of
        Some ips \<Rightarrow> Inr (of_nat (length ips))
      | None \<Rightarrow> Inl (Errorf (''service not found : '' @ serviceName)))"

definition caddyController :: "caddy_env \<Rightarrow> CaddyController NetworkController" where
  "caddyController env =
     \<lparr>AddServiceIP = caddy_AddServiceIP env, DeleteServiceIP = caddy_DeleteServiceIP env,
      DeleteService = caddy_DeleteService env,
      ResolveServiceEndpoint = caddy_ResolveServiceEndpoint env,
      AvailableIPs = caddy_AvailableIPs\<rparr>"

lemma caddyController_sel [simp]:
  "AddServiceIP (caddyController env) = caddy_AddServiceIP env"
  "DeleteServiceIP (caddyController env) = caddy_DeleteServiceIP env"
  "DeleteService (caddyController env) = caddy_DeleteService env"
  "ResolveServiceEndpoint (caddyController env) = caddy_ResolveServiceEndpoint env"
  "AvailableIPs (caddyController env) = caddy_AvailableIPs"
  by (simp_all add: caddyController_def)

section \<open>The cache and the pushed routes\<close>

text \<open>The cache that a call leaves, whatever the server answers.\<close>

lemma reloadConfig_fields:
  assumes "reloadConfig env c = (r, c')"
  shows "serviceIPCache c' = serviceIPCache c \<and> permanentRoutes c' = permanentRoutes c \<and>
    (\<exists>e. r = Ret e)"
  using assms by (auto simp: reloadConfig_def Let_def split: sum.splits if_splits)

lemma reloadConfig_returns: "\<exists>e c'. reloadConfig env c = (Ret e, c')"
  by (auto simp: reloadConfig_def Let_def split: sum.splits)

lemma reloadConfig_server:
  "reloadConfig env c = (Ret e, c') \<Longrightarrow>
   serverRoutes c' =
     (if caddy_Patch env caddyRoutesURL (getConfig env c) = Inr 200 then getConfig env c
      else serverRoutes c)"
  by (auto simp: reloadConfig_def Let_def split: sum.splits if_splits)

lemma add_routes_eq:
  "add_routes cache ss rs = rs @ map (\<lambda>s. service_route s (the (cache s))) ss"
  by (induction cache ss rs rule: add_routes.induct) simp_all

text \<open>The update of the cache that each operation makes.\<close>

definition cache_add :: "string \<Rightarrow> IP \<Rightarrow> (string \<rightharpoonup> string list) \<Rightarrow> (string \<rightharpoonup> string list)" where
  "cache_add service ip m =
     m(service \<mapsto> (case m service of None \<Rightarrow> [] | Some ips \<Rightarrow> ips) @ [ip @ '':'' @ itoa WatchdogPort])"

definition cache_delete :: "string \<Rightarrow> IP \<Rightarrow> (string \<rightharpoonup> string list) \<Rightarrow> (string \<rightharpoonup> string list)" where
  "cache_delete service ip m =
     m(service := (case m service of
                     None \<Rightarrow> None
                   | Some urls \<Rightarrow> (let ips = filter (\<lambda>u. url_host u \<noteq> ip) urls
                                  in if ips = [] then None else Some ips)))"

lemma caddy_add_cases:
  "caddy_AddServiceIP env svc ip c =
     reloadConfig env (c\<lparr>serviceIPCache := cache_add svc ip (serviceIPCache c)\<rparr>)"
  by (simp add: caddy_AddServiceIP_def cache_add_def Let_def split: option.split)

lemma caddy_delete_cases:
  "caddy_DeleteServiceIP env svc ip c =
     (if serviceIPCache c svc = None then (Ret (Some (Errorf ''not found'')), c)
      else reloadConfig env (c\<lparr>serviceIPCache := cache_delete svc ip (serviceIPCache c)\<rparr>))"
  by (simp add: caddy_DeleteServiceIP_def cache_delete_def Let_def split: option.split)

lemma caddy_delete_service_cases:
  "caddy_DeleteService env svc c =
     (if serviceIPCache c svc = None then (Ret (Some (Errorf ''not found'')), c)
      else reloadConfig env (c\<lparr>serviceIPCache := (serviceIPCache c)(svc := None)\<rparr>))"
  by (simp add: caddy_DeleteService_def split: option.split)

lemmas caddy_op_cases = caddy_add_cases caddy_delete_cases caddy_delete_service_cases

section \<open>The controller keeps the contract of a network controller\<close>

definition caddy_pool :: "CaddyController \<Rightarrow> string \<Rightarrow> IP list" where
  "caddy_pool c svc = (case serviceIPCache c svc of None \<Rightarrow> [] | Some urls \<Rightarrow> map url_host urls)"

text \<open>
  The cache has no empty entry, so a cached service can be resolved to some upstream; and no address
  is registered twice.
\<close>

definition caddy_inv :: "CaddyController \<Rightarrow> bool" where
  "caddy_inv c \<longleftrightarrow>
     (\<forall>svc. serviceIPCache c svc \<noteq> Some []) \<and>
     (\<forall>svc. distinct (caddy_pool c svc)) \<and>
     (\<forall>svc svc'. svc \<noteq> svc' \<longrightarrow> set (caddy_pool c svc) \<inter> set (caddy_pool c svc') = {})"

definition plain_ip :: "IP \<Rightarrow> bool" where
  "plain_ip ip \<longleftrightarrow> CHR '':'' \<notin> set ip"

lemma url_host_plain: "plain_ip ip \<Longrightarrow> url_host (ip @ '':'' @ port) = ip"
  by (simp add: url_host_def plain_ip_def split_on_append)

lemma caddy_pool_add:
  assumes "serviceIPCache c' = cache_add svc ip (serviceIPCache c)" and "plain_ip ip"
  shows "caddy_pool c' = (caddy_pool c)(svc := caddy_pool c svc @ [ip])"
  using url_host_plain[OF assms(2), of "itoa WatchdogPort"]
  by (auto simp: caddy_pool_def assms(1) cache_add_def split: option.splits)

lemma caddy_pool_delete:
  assumes "serviceIPCache c' = cache_delete svc ip (serviceIPCache c)"
  shows "caddy_pool c' = (caddy_pool c)(svc := filter (\<lambda>x. x \<noteq> ip) (caddy_pool c svc))"
  by (auto simp: caddy_pool_def assms cache_delete_def Let_def filter_map o_def split: option.splits)

lemma caddy_inv_add:
  assumes inv: "caddy_inv c" and upd: "serviceIPCache c' = cache_add svc ip (serviceIPCache c)"
    and ip: "plain_ip ip" "\<forall>v. ip \<notin> set (caddy_pool c v)"
  shows "caddy_inv c'"
  using inv ip(2) unfolding caddy_inv_def caddy_pool_add[OF upd ip(1)]
  by (auto simp: upd cache_add_def split: if_splits)

lemma caddy_inv_delete:
  assumes inv: "caddy_inv c" and upd: "serviceIPCache c' = cache_delete svc ip (serviceIPCache c)"
  shows "caddy_inv c'"
proof -
  have "serviceIPCache c' v \<noteq> Some []" for v
    using inv by (auto simp: caddy_inv_def upd cache_delete_def Let_def split: option.splits if_splits)
  moreover have "set (caddy_pool c' v) \<inter> set (caddy_pool c' v') = {}" if "v \<noteq> v'" for v v'
  proof -
    have "set (caddy_pool c' v) \<subseteq> set (caddy_pool c v)" for v
      unfolding caddy_pool_delete[OF upd] by auto
    moreover have "set (caddy_pool c v) \<inter> set (caddy_pool c v') = {}"
      using inv that unfolding caddy_inv_def by blast
    ultimately show ?thesis by blast
  qed
  moreover have "distinct (caddy_pool c' v)" for v
    using inv unfolding caddy_inv_def caddy_pool_delete[OF upd] by simp
  ultimately show ?thesis by (simp add: caddy_inv_def)
qed

lemma caddy_pool_nonempty:
  "caddy_inv c \<Longrightarrow> caddy_pool c svc = [] \<longleftrightarrow> serviceIPCache c svc = None"
  by (cases "serviceIPCache c svc") (auto simp: caddy_inv_def caddy_pool_def)

interpretation caddy: network_controller "caddyController env" caddy_pool caddy_inv plain_ip
proof unfold_locales
  fix s svc svc'
  assume inv: "caddy_inv s"
  show "distinct (caddy_pool s svc)" using inv by (simp add: caddy_inv_def)
  show "svc \<noteq> svc' \<Longrightarrow> set (caddy_pool s svc) \<inter> set (caddy_pool s svc') = {}"
    using inv unfolding caddy_inv_def by blast
  show "\<exists>r s'. ResolveServiceEndpoint (caddyController env) svc s = (Ret r, s')"
    by (simp add: caddy_ResolveServiceEndpoint_def split: option.split)
next
  fix s ip svc
  assume inv: "caddy_inv s" "plain_ip ip" "\<forall>v. ip \<notin> set (caddy_pool s v)"
  let ?c = "s\<lparr>serviceIPCache := cache_add svc ip (serviceIPCache s)\<rparr>"
  obtain e s' where s': "reloadConfig env ?c = (Ret e, s')" using reloadConfig_returns by blast
  have upd: "serviceIPCache s' = cache_add svc ip (serviceIPCache s)"
    using reloadConfig_fields[OF s'] by simp
  show "\<exists>e s'. AddServiceIP (caddyController env) svc ip s = (Ret e, s') \<and> caddy_inv s' \<and>
      caddy_pool s' = (caddy_pool s)(svc := caddy_pool s svc @ [ip])"
    using s' caddy_pool_add[OF upd inv(2)] caddy_inv_add[OF inv(1) upd inv(2,3)]
    by (simp add: caddy_add_cases)
next
  fix s ip svc
  assume inv: "caddy_inv s" and mem: "ip \<in> set (caddy_pool s svc)"
  let ?c = "s\<lparr>serviceIPCache := cache_delete svc ip (serviceIPCache s)\<rparr>"
  obtain e s' where s': "reloadConfig env ?c = (Ret e, s')" using reloadConfig_returns by blast
  have upd: "serviceIPCache s' = cache_delete svc ip (serviceIPCache s)"
    using reloadConfig_fields[OF s'] by simp
  have "serviceIPCache s svc \<noteq> None"
    using mem by (cases "serviceIPCache s svc") (simp_all add: caddy_pool_def)
  then show "\<exists>e s'. DeleteServiceIP (caddyController env) svc ip s = (Ret e, s') \<and> caddy_inv s' \<and>
      caddy_pool s' = (caddy_pool s)(svc := filter (\<lambda>x. x \<noteq> ip) (caddy_pool s svc))"
    using s' caddy_pool_delete[OF upd] caddy_inv_delete[OF inv upd]
    by (auto simp: caddy_delete_cases)
next
  fix s svc r s'
  assume "caddy_inv s" "ResolveServiceEndpoint (caddyController env) svc s = (r, s')"
  then show "caddy_inv s' \<and> caddy_pool s' = caddy_pool s"
    by (auto simp: caddy_ResolveServiceEndpoint_def split: option.splits)
next
  fix s svc u s'
  assume "caddy_inv s" "ResolveServiceEndpoint (caddyController env) svc s = (Ret (Inr u), s')"
  then show "caddy_pool s svc \<noteq> []"
    using caddy_pool_nonempty[of s svc]
    by (auto simp: caddy_ResolveServiceEndpoint_def split: option.splits)
next
  fix s svc n
  assume "AvailableIPs (caddyController env) svc s = Inr n"
  then have "unat n \<le> length (caddy_pool s svc)"
    by (auto simp: caddy_AvailableIPs_def caddy_pool_def unat_of_nat split: option.splits)
  then show "unat n \<le> length (caddy_pool s svc)" .
qed

section \<open>The routes on the server\<close>

text \<open>
  What the controller promises: the server has the permanent routes, and one route per cached service
  with the upstreams of the cache, and nothing else.
\<close>

definition route_table :: "CaddyController \<Rightarrow> routeConfig set" where
  "route_table c = set (permanentRoutes c) \<union>
     {service_route svc ips |svc ips. serviceIPCache c svc = Some ips}"

definition caddy_synced :: "CaddyController \<Rightarrow> bool" where
  "caddy_synced c \<longleftrightarrow> set (serverRoutes c) = route_table c"

lemma getConfig_routes:
  assumes "range_order (serviceIPCache c) (caddy_order env (serviceIPCache c))"
  shows "set (getConfig env c) = route_table c"
  using range_orderD(2)[OF assms] by (force simp: getConfig_def add_routes_eq route_table_def dom_def)

lemma reloadConfig_synced:
  assumes "range_order (serviceIPCache c) (caddy_order env (serviceIPCache c))"
    and "\<And>rs. caddy_Patch env caddyRoutesURL rs = Inr 200"
    and "reloadConfig env c = (r, c')"
  shows "caddy_synced c'"
proof -
  have "serverRoutes c' = getConfig env c"
    using assms(2,3) by (auto simp: reloadConfig_def Let_def)
  moreover have "route_table c' = route_table c"
    using reloadConfig_fields[OF assms(3)] by (simp add: route_table_def)
  ultimately show ?thesis using getConfig_routes[OF assms(1)] by (simp add: caddy_synced_def)
qed

datatype caddy_op = CAdd string IP | CDelete string IP | CDeleteService string

fun caddy_step :: "caddy_env \<Rightarrow> caddy_op \<Rightarrow> CaddyController \<Rightarrow> CaddyController" where
  "caddy_step env (CAdd svc ip) c = snd (caddy_AddServiceIP env svc ip c)"
| "caddy_step env (CDelete svc ip) c = snd (caddy_DeleteServiceIP env svc ip c)"
| "caddy_step env (CDeleteService svc) c = snd (caddy_DeleteService env svc c)"

fun caddy_run :: "caddy_env \<Rightarrow> caddy_op list \<Rightarrow> CaddyController \<Rightarrow> CaddyController" where
  "caddy_run env [] c = c"
| "caddy_run env (x # xs) c = caddy_run env xs (caddy_step env x c)"

lemma caddy_step_reload:
  obtains (idle) "caddy_step env x c = c"
  | (reload) m where "caddy_step env x c = snd (reloadConfig env (c\<lparr>serviceIPCache := m\<rparr>))"
      and "finite (dom (serviceIPCache c)) \<Longrightarrow> finite (dom m)"
proof (cases x)
  case (CAdd svc ip)
  then show ?thesis
    by (intro reload[where m = "cache_add svc ip (serviceIPCache c)"])
      (simp_all add: caddy_add_cases cache_add_def)
next
  case (CDelete svc ip)
  have "finite (dom (cache_delete svc ip (serviceIPCache c)))" if "finite (dom (serviceIPCache c))"
    using that by (rule finite_subset[rotated])
      (auto simp: cache_delete_def dom_def split: option.splits if_splits)
  with CDelete show ?thesis
    by (cases "serviceIPCache c svc = None")
      (auto simp: caddy_delete_cases intro: idle
        reload[where m = "cache_delete svc ip (serviceIPCache c)"])
next
  case (CDeleteService svc)
  then show ?thesis
    by (cases "serviceIPCache c svc = None")
      (auto simp: caddy_delete_service_cases intro: idle
        reload[where m = "(serviceIPCache c)(svc := None)"])
qed

lemma caddy_step_synced:
  assumes ord: "\<And>m. finite (dom m) \<Longrightarrow> range_order m (caddy_order env m)"
    and acc: "\<And>rs. caddy_Patch env caddyRoutesURL rs = Inr 200"
    and c: "finite (dom (serviceIPCache c))" "caddy_synced c"
  shows "finite (dom (serviceIPCache (caddy_step env x c))) \<and> caddy_synced (caddy_step env x c) \<and>
    permanentRoutes (caddy_step env x c) = permanentRoutes c"
proof (cases rule: caddy_step_reload[of env x c])
  case idle
  with c show ?thesis by simp
next
  case (reload m)
  obtain r c' where r: "reloadConfig env (c\<lparr>serviceIPCache := m\<rparr>) = (r, c')" by fastforce
  have fin: "finite (dom m)" using reload(2) c(1) .
  have "caddy_synced c'"
    by (rule reloadConfig_synced[OF _ acc r]) (simp add: ord[OF fin])
  with reloadConfig_fields[OF r] fin reload(1) r show ?thesis by simp
qed

lemma caddy_run_synced:
  assumes ord: "\<And>m. finite (dom m) \<Longrightarrow> range_order m (caddy_order env m)"
    and acc: "\<And>rs. caddy_Patch env caddyRoutesURL rs = Inr 200"
    and c: "finite (dom (serviceIPCache c))" "caddy_synced c"
  shows "caddy_synced (caddy_run env xs c) \<and>
    permanentRoutes (caddy_run env xs c) = permanentRoutes c"
  using c
proof (induction xs arbitrary: c)
  case Nil
  then show ?case by simp
next
  case (Cons x xs)
  note st = caddy_step_synced[OF ord acc Cons.prems, of x]
  show ?case using Cons.IH[of "caddy_step env x c"] st by simp
qed

section \<open>Properties\<close>

text \<open>
  C15: A controller created from the routes of the server keeps the server in step with its cache: as
  long as the server accepts every request, after any sequence of registrations, deregistrations and
  deletions the server holds the routes it had at first and exactly one route per cached service,
  with the upstreams of that service.
\<close>

theorem caddy_server_in_step:
  assumes ord: "\<And>m. finite (dom m) \<Longrightarrow> range_order m (caddy_order env m)"
    and acc: "\<And>rs. caddy_Patch env caddyRoutesURL rs = Inr 200"
    and get: "GetUKFaaSRoutes env = Inr server"
    and new: "NewCaddyController env server = Inr c"
  shows "set (serverRoutes (caddy_run env ops c)) = set server \<union>
    {service_route svc ips |svc ips. serviceIPCache (caddy_run env ops c) svc = Some ips}"
proof -
  have c: "c = \<lparr>serviceIPCache = Map.empty, permanentRoutes = server, serverRoutes = server\<rparr>"
    using new by (simp add: NewCaddyController_def get)
  have "caddy_synced c" by (simp add: caddy_synced_def route_table_def c)
  moreover have "finite (dom (serviceIPCache c))" by (simp add: c)
  ultimately have "caddy_synced (caddy_run env ops c) \<and>
      permanentRoutes (caddy_run env ops c) = permanentRoutes c"
    using caddy_run_synced[OF ord acc] by blast
  then show ?thesis by (simp add: caddy_synced_def route_table_def c)
qed

definition caddy_example_env :: caddy_env where
  "caddy_example_env = \<lparr>caddy_Patch = (\<lambda>url rs. Inr 200), caddy_Get = (\<lambda>url. Inr (200, Inr '''')),
     caddy_Unmarshal = (\<lambda>body. Inr [\<lparr>Handle = [], Match = []\<rparr>]), caddy_url_Parse = Inr,
     caddy_order = (\<lambda>m. sorted_list_of_set (dom m))\<rparr>"

lemma caddy_example_order:
  "finite (dom m) \<Longrightarrow> range_order m (caddy_order caddy_example_env m)"
  by (simp add: caddy_example_env_def range_order_def)

theorem caddy_server_in_step_witness:
  "\<exists>c. NewCaddyController caddy_example_env [\<lparr>Handle = [], Match = []\<rparr>] = Inr c \<and>
     service_route ''f'' [''10.0.0.2:8123''] \<in>
       set (serverRoutes (caddy_run caddy_example_env [CAdd ''f'' ''10.0.0.2''] c))"
proof -
  let ?server = "[\<lparr>Handle = [], Match = []\<rparr>]"
  let ?c = "\<lparr>serviceIPCache = Map.empty, permanentRoutes = ?server, serverRoutes = ?server\<rparr>"
  have get: "GetUKFaaSRoutes caddy_example_env = Inr ?server"
    by (simp add: GetUKFaaSRoutes_def caddy_example_env_def)
  have new: "NewCaddyController caddy_example_env ?server = Inr ?c"
    by (simp add: NewCaddyController_def get)
  have acc: "caddy_Patch caddy_example_env caddyRoutesURL rs = Inr 200" for rs
    by (simp add: caddy_example_env_def)
  note spec = caddy_server_in_step[OF caddy_example_order acc get new, of "[CAdd ''f'' ''10.0.0.2'']"]
  obtain r c' where r: "reloadConfig caddy_example_env
      (?c\<lparr>serviceIPCache := cache_add ''f'' ''10.0.0.2'' Map.empty\<rparr>) = (r, c')" by fastforce
  have "serviceIPCache (caddy_run caddy_example_env [CAdd ''f'' ''10.0.0.2''] ?c) ''f''
      = Some [''10.0.0.2:8123'']"
    using reloadConfig_fields[OF r] r by (simp add: caddy_add_cases cache_add_def)
  with spec new show ?thesis by blast
qed

text \<open>
  C16: Deregistering an address from a cached service drops exactly the upstreams with that host, in
  the other services nothing; a service left without upstreams is forgotten; the cache changes even
  when the reload of the server fails. An unknown service is refused and nothing changes.
\<close>

theorem caddy_delete_ip_effect:
  assumes "caddy_DeleteServiceIP env svc ip c = (r, c')"
  shows "(serviceIPCache c svc = None \<longrightarrow> r = Ret (Some (Errorf ''not found'')) \<and> c' = c) \<and>
    (\<forall>urls. serviceIPCache c svc = Some urls \<longrightarrow>
       serviceIPCache c' = (serviceIPCache c)(svc :=
         (if \<forall>u\<in>set urls. url_host u = ip then None
          else Some (filter (\<lambda>u. url_host u \<noteq> ip) urls))))"
proof (cases "serviceIPCache c svc")
  case None
  with assms show ?thesis by (simp add: caddy_delete_cases)
next
  case (Some urls)
  then have "reloadConfig env (c\<lparr>serviceIPCache := cache_delete svc ip (serviceIPCache c)\<rparr>) = (r, c')"
    using assms by (simp add: caddy_delete_cases)
  from reloadConfig_fields[OF this] Some show ?thesis
    by (auto simp: cache_delete_def Let_def filter_empty_conv)
qed

definition caddy_example :: CaddyController where
  "caddy_example = \<lparr>serviceIPCache = [''f'' \<mapsto> [''10.0.0.2:8123'', ''10.0.0.3:8123'']],
     permanentRoutes = [], serverRoutes = []\<rparr>"

theorem caddy_delete_ip_effect_witness:
  "serviceIPCache (snd (caddy_DeleteServiceIP caddy_example_env ''f'' ''10.0.0.2'' caddy_example)) ''f''
     = Some [''10.0.0.3:8123'']"
proof -
  obtain r c' where r: "caddy_DeleteServiceIP caddy_example_env ''f'' ''10.0.0.2'' caddy_example = (r, c')"
    by fastforce
  have "serviceIPCache caddy_example ''f'' = Some [''10.0.0.2:8123'', ''10.0.0.3:8123'']"
    by (simp add: caddy_example_def)
  with caddy_delete_ip_effect[OF r] show ?thesis by (simp add: r url_host_def)
qed

text \<open>
  The status of a reload is not checked. When the server refuses the routes (any status but 200)
  a registration still reports success and updates the cache, while the server keeps its old routes.
\<close>

theorem caddy_refused_reload_unnoticed:
  assumes "\<And>rs. caddy_Patch env caddyRoutesURL rs = Inr status" and "status \<noteq> 200"
  shows "\<exists>c'. caddy_AddServiceIP env svc ip c = (Ret None, c') \<and>
    serverRoutes c' = serverRoutes c \<and>
    serviceIPCache c' = cache_add svc ip (serviceIPCache c)"
  using assms by (simp add: caddy_add_cases reloadConfig_def Let_def)

theorem caddy_refused_reload_unnoticed_witness:
  "\<exists>c'. caddy_AddServiceIP (caddy_example_env\<lparr>caddy_Patch := \<lambda>url rs. Inr 500\<rparr>) ''g'' ''10.0.0.4''
      caddy_example = (Ret None, c') \<and> serverRoutes c' = []"
  using caddy_refused_reload_unnoticed
    [of "caddy_example_env\<lparr>caddy_Patch := \<lambda>url rs. Inr 500\<rparr>" 500 "''g''" "''10.0.0.4''" caddy_example]
  by (auto simp: caddy_example_def)

text \<open>
  C18: When the server answers the initial GET with a status other than 200, the constructor reports no
  error and takes the list of permanent routes to be empty; the first accepted registration then
  removes whatever routes the server had.
\<close>

theorem caddy_failed_get_drops_routes:
  assumes get: "caddy_Get env caddyRoutesURL = Inr (status, body)" and bad: "status \<noteq> 200"
    and ord: "caddy_order env [svc \<mapsto> [ip @ '':8123'']] = [svc]"
    and acc: "\<And>rs. caddy_Patch env caddyRoutesURL rs = Inr 200"
  shows "\<exists>c c'. NewCaddyController env server = Inr c \<and>
    caddy_AddServiceIP env svc ip c = (Ret None, c') \<and>
    serverRoutes c' = [service_route svc [ip @ '':8123'']]"
  by (simp add: NewCaddyController_def GetUKFaaSRoutes_def get bad caddy_add_cases reloadConfig_def
      acc getConfig_def cache_add_def ord Let_def)

theorem caddy_failed_get_drops_routes_witness:
  "\<exists>c c'. NewCaddyController (caddy_example_env\<lparr>caddy_Get := \<lambda>url. Inr (404, Inr ''''),
       caddy_order := \<lambda>m. [''f'']\<rparr>) [\<lparr>Handle = [], Match = []\<rparr>] = Inr c \<and>
    caddy_AddServiceIP (caddy_example_env\<lparr>caddy_Get := \<lambda>url. Inr (404, Inr ''''),
       caddy_order := \<lambda>m. [''f'']\<rparr>) ''f'' ''10.0.0.2'' c = (Ret None, c') \<and>
    serverRoutes c' = [service_route ''f'' [''10.0.0.2:8123'']]"
  using caddy_failed_get_drops_routes
    [of "caddy_example_env\<lparr>caddy_Get := \<lambda>url. Inr (404, Inr ''''), caddy_order := \<lambda>m. [''f'']\<rparr>"
       404 "Inr ''''" "''f''" "''10.0.0.2''" "[\<lparr>Handle = [], Match = []\<rparr>]"]
  by (simp add: caddy_example_env_def)

end
