(* ===== verification/GoPath.thy ===== *)
theory GoPath
  imports GoPrelude
begin

text \<open>
  The functions \<open>Clean\<close> and \<open>Join\<close> of the packages \<open>path\<close> and \<open>path/filepath\<close> (on a Unix
  system both compute the same), which the program uses for the directories of images, machines and
  secrets. The result of cleaning is computed on the components of the path, with a stack.
\<close>

fun join_slash :: "string list \<Rightarrow> string" where
  "join_slash [] = ''''"
| "join_slash [p] = p"
| "join_slash (p # q # ps) = p @ ''/'' @ join_slash (q # ps)"

text \<open>
  Empty components and \<open>.\<close> are dropped; \<open>..\<close> removes the component before it, is dropped at the
  root, and stays at the front of a relative path. The stack holds the components in reverse.
\<close>

fun clean_push :: "bool \<Rightarrow> string list \<Rightarrow> string \<Rightarrow> string list" where
  "clean_push rooted st p =
     (if p = '''' \<or> p = ''.'' then st
      else if p = ''..'' then
        (case st of
           [] \<Rightarrow> if rooted then [] else [''..'']
         | q # qs \<Rightarrow> if q = ''..'' then p # st else qs)
      else p # st)"

definition clean_parts :: "bool \<Rightarrow> string list \<Rightarrow> string list" where
  "clean_parts rooted parts = rev (foldl (clean_push rooted) [] parts)"

definition path_Clean :: "string \<Rightarrow> string" where
  "path_Clean s =
     (let rooted = (case s of [] \<Rightarrow> False | c # _ \<Rightarrow> c = CHR ''/'');
          parts = clean_parts rooted (split_on (CHR ''/'') s)
      in if rooted then ''/'' @ join_slash parts
         else if parts = [] then ''.'' else join_slash parts)"

definition path_Join :: "string list \<Rightarrow> string" where
  "path_Join elems =
     (let es = filter (\<lambda>e. e \<noteq> '''') elems in if es = [] then '''' else path_Clean (join_slash es))"

section \<open>Absolute paths in normal form\<close>

text \<open>A name is a path component that cleaning keeps.\<close>

definition path_name :: "string \<Rightarrow> bool" where
  "path_name p \<longleftrightarrow> p \<noteq> '''' \<and> p \<noteq> ''.'' \<and> p \<noteq> ''..'' \<and> CHR ''/'' \<notin> set p"

definition abs_path :: "string list \<Rightarrow> string" where
  "abs_path ps = ''/'' @ join_slash ps"

lemma path_nameD:
  assumes "path_name p"
  shows "p \<noteq> ''''" and "p \<noteq> ''.''" and "p \<noteq> ''..''" and "CHR ''/'' \<notin> set p"
  using assms by (simp_all add: path_name_def)

lemma clean_push_name: "path_name p \<Longrightarrow> clean_push r st p = p # st"
  by (simp add: path_name_def)

lemma clean_push_up: "path_name q \<Longrightarrow> clean_push r (q # st) ''..'' = st"
  by (simp add: path_name_def)

declare clean_push.simps [simp del]

lemma clean_push_empty [simp]: "clean_push r st '''' = st"
  by (simp add: clean_push.simps)

lemma foldl_clean_names:
  "\<forall>p\<in>set ps. path_name p \<Longrightarrow> foldl (clean_push r) st ps = rev ps @ st"
  by (induction ps arbitrary: st) (simp_all add: clean_push_name)

lemma split_on_join:
  "ps \<noteq> [] \<Longrightarrow> \<forall>p\<in>set ps. CHR ''/'' \<notin> set p \<Longrightarrow> split_on (CHR ''/'') (join_slash ps) = ps"
  by (induction ps rule: join_slash.induct) (simp_all add: split_on_no_sep split_on_append)

lemma split_on_abs:
  "ps \<noteq> [] \<Longrightarrow> \<forall>p\<in>set ps. CHR ''/'' \<notin> set p \<Longrightarrow> split_on (CHR ''/'') (abs_path ps) = '''' # ps"
  by (simp add: abs_path_def split_on_join)

lemma join_slash_append:
  "ps \<noteq> [] \<Longrightarrow> qs \<noteq> [] \<Longrightarrow> join_slash (ps @ qs) = join_slash ps @ ''/'' @ join_slash qs"
  by (induction ps rule: join_slash.induct) (auto simp: neq_Nil_conv)

lemma path_Clean_abs:
  assumes "ps \<noteq> []" and "\<forall>p\<in>set ps. CHR ''/'' \<notin> set p"
  shows "path_Clean (abs_path ps) = abs_path (clean_parts True ps)"
  using split_on_abs[OF assms] by (simp add: path_Clean_def abs_path_def Let_def clean_parts_def)

lemma path_Clean_names:
  assumes "ps \<noteq> []" and "\<forall>p\<in>set ps. path_name p"
  shows "path_Clean (abs_path ps) = abs_path ps"
  using assms path_Clean_abs[OF assms(1)] foldl_clean_names[OF assms(2), of True "[]"]
  by (simp add: clean_parts_def path_name_def)

text \<open>Joining a directory and a path of components.\<close>

lemma path_Join_abs:
  assumes "ps \<noteq> []" and "qs \<noteq> []" and "\<forall>p\<in>set ps. path_name p"
    and "\<forall>q\<in>set qs. CHR ''/'' \<notin> set q" and "join_slash qs \<noteq> ''''"
  shows "path_Join [abs_path ps, join_slash qs] = abs_path (clean_parts True (ps @ qs))"
proof -
  have "abs_path ps \<noteq> ''''" by (simp add: abs_path_def)
  then have "path_Join [abs_path ps, join_slash qs] = path_Clean (abs_path (ps @ qs))"
    using assms(1,2,5) by (simp add: path_Join_def Let_def abs_path_def join_slash_append)
  also have "\<dots> = abs_path (clean_parts True (ps @ qs))"
    using assms(1,3,4) by (intro path_Clean_abs) (auto simp: path_name_def)
  finally show ?thesis .
qed

lemma path_Join_name:
  assumes "ps \<noteq> []" and "\<forall>p\<in>set ps. path_name p" and "path_name q"
  shows "path_Join [abs_path ps, q] = abs_path (ps @ [q])"
proof -
  have "path_Join [abs_path ps, join_slash [q]] = abs_path (clean_parts True (ps @ [q]))"
    using assms by (intro path_Join_abs) (auto simp: path_name_def)
  moreover have "clean_parts True (ps @ [q]) = ps @ [q]"
    using foldl_clean_names[of "ps @ [q]" True "[]"] assms by (simp add: clean_parts_def)
  ultimately show ?thesis by simp
qed

text \<open>A path that starts with \<open>..\<close> leaves the directory it is joined to.\<close>

lemma path_Join_up:
  assumes "ps \<noteq> []" and "\<forall>p\<in>set ps. path_name p" and "path_name d" and "path_name q" and "path_name r"
  shows "path_Join [abs_path (ps @ [d]), ''../'' @ q @ ''/'' @ r] = abs_path (ps @ [q, r])"
proof -
  have "path_Join [abs_path (ps @ [d]), join_slash [''..'', q, r]]
      = abs_path (clean_parts True ((ps @ [d]) @ [''..'', q, r]))"
    using assms by (intro path_Join_abs) (auto simp: path_name_def)
  moreover have "clean_parts True ((ps @ [d]) @ [''..'', q, r]) = ps @ [q, r]"
    using foldl_clean_names[OF assms(2), of True "[]"] assms(3-5)
    by (simp add: clean_parts_def clean_push_name clean_push_up)
  ultimately show ?thesis by simp
qed

lemma join_slash_inject:
  assumes "ps \<noteq> []" "qs \<noteq> []" "\<forall>p\<in>set ps. path_name p" "\<forall>p\<in>set qs. path_name p"
    and "join_slash ps = join_slash qs"
  shows "ps = qs"
  using assms split_on_join[of ps] split_on_join[of qs] by (metis path_name_def)

text \<open>The two directories of the daemon.\<close>

lemma OCIDirectory_path: "OCIDirectory = abs_path [''tmp'', ''kraftkit'', ''oci'']"
  by (simp add: OCIDirectory_def abs_path_def)

lemma MachineDirectory_path: "MachineDirectory = abs_path [''tmp'', ''kraftkit'', ''machines'']"
  by (simp add: MachineDirectory_def abs_path_def)

lemma join_MachineDirectory: "path_name u \<Longrightarrow> path_Join [MachineDirectory, u] = MachineDirectory @ ''/'' @ u"
  by (subst (1) MachineDirectory_path, subst path_Join_name)
    (simp_all add: path_name_def abs_path_def MachineDirectory_def)

lemma join_OCIDirectory: "path_name u \<Longrightarrow> path_Join [OCIDirectory, u] = OCIDirectory @ ''/'' @ u"
  by (subst (1) OCIDirectory_path, subst path_Join_name)
    (simp_all add: path_name_def abs_path_def OCIDirectory_def)

end
