(* ===== verification/FunctionStore.thy ===== *)
theory FunctionStore
  imports GoPath
begin

text \<open>
  The store of deployed functions, \<open>pkg/store/function.go\<close> and \<open>utils.go\<close>: the metadata of each
  function by service name, and the pulled packages by digest. What containerd, the OCI library and
  the file system answer during a call is an argument. The deployment and status records are those
  of the \<open>faas-provider\<close> types the code is written against.
\<close>

section \<open>Data\<close>

text \<open>
  Go maps reached through pointers (labels, annotations) are references into a heap that the machine
  store writes; here they are only copied.
\<close>

type_synonym mapref = nat

record FunctionResources =
  res_Memory :: string
  res_CPU :: string

record FunctionDeployment =
  fd_Service :: string
  fd_Image :: string
  fd_Namespace :: string
  fd_EnvProcess :: string
  fd_EnvVars :: "string \<rightharpoonup> string"
  fd_Constraints :: "string list"
  fd_Secrets :: "string list"
  fd_Labels :: "mapref option"
  fd_Annotations :: "mapref option"
  fd_Limits :: "FunctionResources option"
  fd_Requests :: "FunctionResources option"
  fd_ReadOnlyRootFilesystem :: bool

record FunctionStatus =
  st_Name :: string
  st_Image :: string
  st_Namespace :: string
  st_EnvProcess :: string
  st_EnvVars :: "string \<rightharpoonup> string"
  st_Constraints :: "string list"
  st_Secrets :: "string list"
  st_Labels :: "mapref option"
  st_Annotations :: "mapref option"
  st_Limits :: "FunctionResources option"
  st_Requests :: "FunctionResources option"
  st_ReadOnlyRootFilesystem :: bool
  st_Replicas :: "64 word"
  st_AvailableReplicas :: "64 word"
  st_CreatedAt :: nat

text \<open>
  A package, with what the type assertion \<open>.(target.Target)\<close> gives: nothing when the package is not
  a target. A manifest of the image store, with the digest of its config descriptor.
\<close>

record Target =
  tg_Architecture :: string
  tg_Platform :: string
  tg_Format :: string
  tg_Kernel :: string

record Package =
  pack_Name :: string
  pack_target :: "Target option"

record Manifest =
  mf_Annotations :: "string \<rightharpoonup> string"
  mf_ConfigDigest :: string

text \<open>\<open>FunctionMetaData\<close>: the zero time is 0.\<close>

record FunctionMetaData =
  md_CreatedAt :: nat
  md_FunctionDeployment :: FunctionDeployment
  md_Package :: Package
  md_StorageDir :: string

text \<open>
  \<open>fstore_dirs\<close> is not a field of the Go struct: it is the set of directories the store has created
  on disk.
\<close>

record FunctionStore =
  imageStore :: "string \<rightharpoonup> Package"
  functionMetaData :: "string \<rightharpoonup> FunctionMetaData"
  fstore_dirs :: "string set"

text \<open>
  The libraries: the name of a parsed image reference, the manifests of the handler, the package of a
  manifest (nil with an error), \<open>os.MkdirAll\<close>, the detected platform, a pull into a directory (which
  changes the package it is called on), and the clock.
\<close>

record fstore_env =
  ParseReference :: "string \<Rightarrow> go_error + string"
  ListManifests :: "go_error + Manifest list"
  NewPackageFromOCIManifestSpec :: "string \<Rightarrow> Manifest \<Rightarrow> go_error + Package"
  fs_MkdirAll :: "string \<Rightarrow> go_error option"
  fs_Detect :: "go_error + string"
  Pull :: "Package \<Rightarrow> string \<Rightarrow> string \<Rightarrow> go_error + Package"
  time_Now :: nat

section \<open>Operations\<close>

text \<open>\<open>NewFunctionStore\<close>, given the results of \<open>containerd.New\<close> and of the handler constructor.\<close>

definition NewFunctionStore :: "go_error option \<Rightarrow> go_error option \<Rightarrow> go_error + FunctionStore" where
  "NewFunctionStore clientErr handlerErr =
     (case clientErr of
        Some err \<Rightarrow> Inl err
      | None \<Rightarrow>
          (case handlerErr of
             Some err \<Rightarrow> Inl (Wrapf ''handler initialisation failed with: '' err)
           | None \<Rightarrow> Inr \<lparr>imageStore = Map.empty, functionMetaData = Map.empty, fstore_dirs = {}\<rparr>))"

definition FunctionExists :: "string \<Rightarrow> FunctionStore \<Rightarrow> bool" where
  "FunctionExists serviceName f \<longleftrightarrow> functionMetaData f serviceName \<noteq> None"

text \<open>
  The loop over the manifests, with its two variables \<open>ocipack\<close> and \<open>descriptor\<close>: a matching manifest
  assigns both, and the loop goes on when the package could not be made.
\<close>

fun find_package ::
  "fstore_env \<Rightarrow> string \<Rightarrow> Manifest list \<Rightarrow> Package option \<Rightarrow> string \<Rightarrow> Package option \<times> string" where
  "find_package env refName [] ocipack digest = (ocipack, digest)"
| "find_package env refName (manifest # rest) ocipack digest =
     (case mf_Annotations manifest ''org.unikraft.image.name'' of
        None \<Rightarrow> find_package env refName rest ocipack digest
      | Some unikernelName \<Rightarrow>
          (case mf_Annotations manifest ''org.unikraft.image.version'' of
             None \<Rightarrow> find_package env refName rest ocipack digest
           | Some unikernelVersion \<Rightarrow>
               (if unikernelName @ '':'' @ unikernelVersion = refName
                then (case NewPackageFromOCIManifestSpec env refName manifest of
                        Inr p \<Rightarrow> (Some p, mf_ConfigDigest manifest)
                      | Inl err \<Rightarrow> find_package env refName rest None (mf_ConfigDigest manifest))
                else find_package env refName rest ocipack digest)))"

text \<open>
  Pulling an image that is not in the store. The deferred clean-up of the code tests the variable
  \<open>err\<close> of the enclosing function, which is nil here, and not the one the block declares: the
  directory stays when the platform is not detected or the pull fails.
\<close>

definition pull_image ::
  "fstore_env \<Rightarrow> Package \<Rightarrow> string \<Rightarrow> (FunctionStore, go_error + Package) go" where
  "pull_image env ocipack storageDir f =
     (case fs_MkdirAll env storageDir of
        Some err \<Rightarrow> (Ret (Inl err), f)
      | None \<Rightarrow>
          (let f' = f\<lparr>fstore_dirs := insert storageDir (fstore_dirs f)\<rparr>
           in case fs_Detect env of
                Inl err \<Rightarrow> (Ret (Inl err), f')
              | Inr platform \<Rightarrow> (Ret (Pull env ocipack storageDir platform), f')))"

definition register_function ::
  "fstore_env \<Rightarrow> FunctionDeployment \<Rightarrow> Package \<Rightarrow> string \<Rightarrow> string \<Rightarrow>
   (FunctionStore, go_error + FunctionMetaData) go" where
  "register_function env req ocipack digest storageDir f =
     (if pack_target ocipack = None
      then (Ret (Inl (Errorf ''package does not convert to target'')), f)
      else let functionMetadata = \<lparr>md_CreatedAt = time_Now env, md_FunctionDeployment = req,
                 md_Package = ocipack, md_StorageDir = storageDir\<rparr>
           in (Ret (Inr functionMetadata),
               f\<lparr>functionMetaData := (functionMetaData f)(fd_Service req \<mapsto> functionMetadata),
                 imageStore := (imageStore f)(digest \<mapsto> ocipack)\<rparr>))"

text \<open>The image of a request: its package and the digest text from its fifth character on.\<close>

definition locate_image ::
  "fstore_env \<Rightarrow> FunctionDeployment \<Rightarrow> (FunctionStore, go_error + Package \<times> string) go" where
  "locate_image env req f =
     (case ParseReference env (fd_Image req) of
        Inl refErr \<Rightarrow> (Ret (Inl (Wrapf ''name parse failed with: '' refErr)), f)
      | Inr refName \<Rightarrow>
          (case ListManifests env of
             Inl err \<Rightarrow> (Ret (Inl (Wrapf ''list manifests failed with: '' err)), f)
           | Inr manifests \<Rightarrow>
               (case find_package env refName manifests None '''' of
                  (None, _) \<Rightarrow> (Ret (Inl (Errorf ''no manifests found'')), f)
                | (Some ocipack, d) \<Rightarrow>
                    (if length d < 4 then (Panic ''slice bounds out of range'', f)
                     else (Ret (Inr (ocipack, drop 4 d)), f)))))"

definition AddFunction ::
  "fstore_env \<Rightarrow> FunctionDeployment \<Rightarrow> (FunctionStore, go_error + FunctionMetaData) go" where
  "AddFunction env req f =
     (if FunctionExists (fd_Service req) f
      then (Ret (Inl (Errorf (''service '' @ fd_Service req @ '' already exists''))), f)
      else go_bind (locate_image env req) (\<lambda>located.
        case located of
          Inl err \<Rightarrow> go_return (Inl err)
        | Inr (ocipack, digest) \<Rightarrow>
            (let storageDir = path_Join [OCIDirectory, digest]
             in go_bind (\<lambda>f. case imageStore f digest of
                               Some val \<Rightarrow> (Ret (Inr val), f)
                             | None \<Rightarrow> pull_image env ocipack storageDir f)
                  (\<lambda>pulled. case pulled of
                     Inl err \<Rightarrow> go_return (Inl err)
                   | Inr ocipack' \<Rightarrow> register_function env req ocipack' digest storageDir))) f)"

definition DeleteFunction :: "string \<Rightarrow> (FunctionStore, go_error option) go" where
  "DeleteFunction service f =
     (Ret None, f\<lparr>functionMetaData := (functionMetaData f)(service := None)\<rparr>)"

definition status_of :: "string \<Rightarrow> FunctionMetaData \<Rightarrow> nat \<Rightarrow> FunctionStatus" where
  "status_of name md created =
     (let d = md_FunctionDeployment md
      in \<lparr>st_Name = name, st_Image = fd_Image d, st_Namespace = fd_Namespace d,
          st_EnvProcess = fd_EnvProcess d, st_EnvVars = fd_EnvVars d,
          st_Constraints = fd_Constraints d, st_Secrets = fd_Secrets d, st_Labels = fd_Labels d,
          st_Annotations = fd_Annotations d, st_Limits = fd_Limits d, st_Requests = fd_Requests d,
          st_ReadOnlyRootFilesystem = True, st_Replicas = 0, st_AvailableReplicas = 0,
          st_CreatedAt = created\<rparr>)"

text \<open>\<open>ListFunctions\<close>, in the order of the range; it leaves the creation time out.\<close>

fun list_statuses :: "(string \<rightharpoonup> FunctionMetaData) \<Rightarrow> string list \<Rightarrow> FunctionStatus list" where
  "list_statuses m [] = []"
| "list_statuses m (name # names) =
     (case m name of
        None \<Rightarrow> list_statuses m names
      | Some md \<Rightarrow> status_of name md 0 # list_statuses m names)"

definition ListFunctions :: "string list \<Rightarrow> FunctionStore \<Rightarrow> go_error + FunctionStatus list" where
  "ListFunctions order f = Inr (list_statuses (functionMetaData f) order)"

definition GetFunction :: "string \<Rightarrow> FunctionStore \<Rightarrow> go_error + FunctionMetaData" where
  "GetFunction service f =
     (case functionMetaData f service of
        Some md \<Rightarrow> Inr md
      | None \<Rightarrow> Inl (Errorf (''function '' @ service @ '' not found'')))"

definition GetFunctionStatus :: "string \<Rightarrow> FunctionStore \<Rightarrow> go_error + FunctionStatus" where
  "GetFunctionStatus service f =
     (case GetFunction service f of
        Inl err \<Rightarrow> Inl (Errorf (''function '' @ service @ '' not found''))
      | Inr md \<Rightarrow> Inr (status_of service md (md_CreatedAt md)))"

text \<open>
  \<open>UpdateFunction\<close>, with the flag \<open>updateImage\<close> it returns beside the metadata. The record built for
  an unchanged image does not set \<open>CreatedAt\<close>.
\<close>

definition UpdateFunction ::
  "fstore_env \<Rightarrow> FunctionDeployment \<Rightarrow> (FunctionStore, go_error + FunctionMetaData \<times> bool) go" where
  "UpdateFunction env req f =
     (case GetFunction (fd_Service req) f of
        Inl err \<Rightarrow> (Ret (Inl err), f)
      | Inr fMetadata \<Rightarrow>
          (if fd_Image (md_FunctionDeployment fMetadata) \<noteq> fd_Image req
           then go_bind (DeleteFunction (fd_Service req)) (\<lambda>_.
                  go_bind (AddFunction env req) (\<lambda>added.
                    go_return (case added of
                      Inl err \<Rightarrow> Inl err
                    | Inr funcMeta \<Rightarrow> Inr (funcMeta, True)))) f
           else let updatedFunc = \<lparr>md_CreatedAt = 0, md_FunctionDeployment = req,
                      md_Package = md_Package fMetadata, md_StorageDir = md_StorageDir fMetadata\<rparr>
                in (Ret (Inr (updatedFunc, False)),
                    f\<lparr>functionMetaData := (functionMetaData f)(fd_Service req \<mapsto> updatedFunc)\<rparr>)))"

section \<open>What a call changes\<close>

lemma locate_image_state: "snd (locate_image env req f) = f"
  by (simp add: locate_image_def split: sum.split prod.split option.split)

lemma locate_image_cases:
  obtains (failed) e where "locate_image env req f = (Ret (Inl e), f)"
  | (short) "locate_image env req f = (Panic ''slice bounds out of range'', f)"
  | (found) p digest where "locate_image env req f = (Ret (Inr (p, digest)), f)"
proof (cases "ParseReference env (fd_Image req)")
  case (Inl e)
  then show ?thesis by (intro failed) (simp add: locate_image_def)
next
  case ref: (Inr refName)
  show ?thesis
  proof (cases "ListManifests env")
    case (Inl e)
    with ref show ?thesis by (intro failed) (simp add: locate_image_def)
  next
    case ms: (Inr manifests)
    obtain p d where found_at: "find_package env refName manifests None '''' = (p, d)" by fastforce
    show ?thesis
    proof (cases p)
      case None
      with ref ms found_at show ?thesis by (intro failed) (simp add: locate_image_def)
    next
      case (Some q)
      with ref ms found_at show ?thesis
        by (cases "length d < 4") (simp_all add: locate_image_def short found)
    qed
  qed
qed

text \<open>The package for a located image: the one of the store, or a pulled one.\<close>

definition fetch_image ::
  "fstore_env \<Rightarrow> Package \<Rightarrow> string \<Rightarrow> (FunctionStore, go_error + Package) go" where
  "fetch_image env ocipack digest f =
     (case imageStore f digest of
        Some val \<Rightarrow> (Ret (Inr val), f)
      | None \<Rightarrow> pull_image env ocipack (path_Join [OCIDirectory, digest]) f)"

lemma fetch_image_frame:
  assumes "fetch_image env p digest f = (r, f')"
  shows "functionMetaData f' = functionMetaData f \<and> imageStore f' = imageStore f \<and>
    (\<exists>x. r = Ret x) \<and> (\<forall>q. imageStore f digest = Some q \<longrightarrow> r = Ret (Inr q) \<and> f' = f) \<and>
    fstore_dirs f \<subseteq> fstore_dirs f' \<and>
    (\<forall>q. imageStore f digest = None \<and> r = Ret (Inr q) \<longrightarrow>
       path_Join [OCIDirectory, digest] \<in> fstore_dirs f')"
  using assms by (auto simp: fetch_image_def pull_image_def Let_def split: option.splits sum.splits)

lemma AddFunction_new:
  assumes "\<not> FunctionExists (fd_Service req) f" and "locate_image env req f = (Ret (Inr (p, digest)), f)"
    and "fetch_image env p digest f = (Ret fetched, f')"
  shows "AddFunction env req f =
    (case fetched of
       Inl e \<Rightarrow> (Ret (Inl e), f')
     | Inr q \<Rightarrow> register_function env req q digest (path_Join [OCIDirectory, digest]) f')"
  using assms
  by (simp add: AddFunction_def fetch_image_def go_return_def go_bind_def Let_def split: sum.splits)

lemma AddFunction_cases:
  obtains (stopped) r f' where "AddFunction env req f = (r, f')" and "\<forall>md. r \<noteq> Ret (Inr md)"
      and "functionMetaData f' = functionMetaData f" and "imageStore f' = imageStore f"
      and "fstore_dirs f \<subseteq> fstore_dirs f'"
  | (added) md f' p digest where "AddFunction env req f = (Ret (Inr md), f')"
      and "\<not> FunctionExists (fd_Service req) f"
      and "locate_image env req f = (Ret (Inr (p, digest)), f)"
      and "md_FunctionDeployment md = req" and "md_CreatedAt md = time_Now env"
      and "md_StorageDir md = path_Join [OCIDirectory, digest]"
      and "pack_target (md_Package md) \<noteq> None"
      and "\<forall>q. imageStore f digest = Some q \<longrightarrow> md_Package md = q"
      and "functionMetaData f' = (functionMetaData f)(fd_Service req \<mapsto> md)"
      and "imageStore f' = (imageStore f)(digest \<mapsto> md_Package md)"
      and "fstore_dirs f \<subseteq> fstore_dirs f'"
      and "imageStore f digest = None \<Longrightarrow> path_Join [OCIDirectory, digest] \<in> fstore_dirs f'"
proof (cases "FunctionExists (fd_Service req) f")
  case True
  then show ?thesis by (intro stopped) (auto simp: AddFunction_def)
next
  case new: False
  show ?thesis
  proof (cases rule: locate_image_cases[of env req f])
    case (failed e)
    then show ?thesis using new by (intro stopped) (auto simp: AddFunction_def go_return_def)
  next
    case short
    then show ?thesis using new by (intro stopped) (auto simp: AddFunction_def)
  next
    case (found p digest)
    obtain r f' where fetch: "fetch_image env p digest f = (r, f')" by fastforce
    note fr = fetch_image_frame[OF fetch]
    from fr obtain x where x: "r = Ret x" by blast
    note add = AddFunction_new[OF new found fetch[unfolded x]]
    show ?thesis
    proof (cases x)
      case (Inl e)
      then show ?thesis using add fr by (intro stopped[of "Ret (Inl e)" f']) simp_all
    next
      case (Inr q)
      show ?thesis
      proof (cases "pack_target q")
        case None
        then show ?thesis using add fr Inr
          by (intro stopped[of "Ret (Inl (Errorf ''package does not convert to target''))" f'])
            (simp_all add: register_function_def)
      next
        case (Some t)
        let ?md = "\<lparr>md_CreatedAt = time_Now env, md_FunctionDeployment = req, md_Package = q,
          md_StorageDir = path_Join [OCIDirectory, digest]\<rparr>"
        let ?f = "f'\<lparr>functionMetaData := (functionMetaData f')(fd_Service req \<mapsto> ?md),
          imageStore := (imageStore f')(digest \<mapsto> q)\<rparr>"
        show ?thesis
          by (rule added[of ?md ?f p digest])
            (use Some add fr Inr x found new in \<open>simp_all add: register_function_def Let_def\<close>)
      qed
    qed
  qed
qed

lemma UpdateFunction_unknown:
  "functionMetaData f (fd_Service req) = None \<Longrightarrow>
   UpdateFunction env req f =
     (Ret (Inl (Errorf (''function '' @ fd_Service req @ '' not found''))), f)"
  by (simp add: UpdateFunction_def GetFunction_def)

lemma UpdateFunction_same_image:
  assumes "functionMetaData f (fd_Service req) = Some md"
    and "fd_Image (md_FunctionDeployment md) = fd_Image req"
  shows "\<exists>md' f'. UpdateFunction env req f = (Ret (Inr (md', False)), f') \<and>
    md' = \<lparr>md_CreatedAt = 0, md_FunctionDeployment = req, md_Package = md_Package md,
           md_StorageDir = md_StorageDir md\<rparr> \<and>
    functionMetaData f' = (functionMetaData f)(fd_Service req \<mapsto> md') \<and> imageStore f' = imageStore f \<and>
    fstore_dirs f' = fstore_dirs f"
  using assms by (simp add: UpdateFunction_def GetFunction_def Let_def)

lemma UpdateFunction_new_image:
  assumes "functionMetaData f (fd_Service req) = Some md"
    and "fd_Image (md_FunctionDeployment md) \<noteq> fd_Image req"
  shows "UpdateFunction env req f =
    go_bind (AddFunction env req) (\<lambda>added. go_return
      (case added of Inl err \<Rightarrow> Inl err | Inr funcMeta \<Rightarrow> Inr (funcMeta, True)))
      (f\<lparr>functionMetaData := (functionMetaData f)(fd_Service req := None)\<rparr>)"
  using assms by (simp add: UpdateFunction_def GetFunction_def DeleteFunction_def go_bind_def)

section \<open>The invariant of the store\<close>

text \<open>
  A function is stored under the service name of its deployment, its package is the stored image of
  a digest, unpacked in the directory of that digest, and every stored image is a target (the type
  assertions of the machine store succeed) whose directory was created.
\<close>

definition fstore_inv :: "FunctionStore \<Rightarrow> bool" where
  "fstore_inv f \<longleftrightarrow>
     (\<forall>svc md. functionMetaData f svc = Some md \<longrightarrow>
        fd_Service (md_FunctionDeployment md) = svc \<and>
        (\<exists>digest. imageStore f digest = Some (md_Package md) \<and>
           md_StorageDir md = path_Join [OCIDirectory, digest])) \<and>
     (\<forall>digest p. imageStore f digest = Some p \<longrightarrow>
        pack_target p \<noteq> None \<and> path_Join [OCIDirectory, digest] \<in> fstore_dirs f)"

lemma fstore_invD:
  assumes "fstore_inv f"
  shows "functionMetaData f svc = Some md \<Longrightarrow> fd_Service (md_FunctionDeployment md) = svc"
    and "functionMetaData f svc = Some md \<Longrightarrow> \<exists>digest. imageStore f digest = Some (md_Package md) \<and>
      md_StorageDir md = path_Join [OCIDirectory, digest]"
    and "imageStore f digest = Some p \<Longrightarrow>
      pack_target p \<noteq> None \<and> path_Join [OCIDirectory, digest] \<in> fstore_dirs f"
  using assms by (simp_all add: fstore_inv_def)

lemma fstore_inv_function:
  assumes "fstore_inv f" and "functionMetaData f svc = Some md"
  shows "pack_target (md_Package md) \<noteq> None" and "md_StorageDir md \<in> fstore_dirs f"
  using fstore_invD(2)[OF assms] fstore_invD(3)[OF assms(1)] by fastforce+

lemma fstore_inv_new: "NewFunctionStore None None = Inr f \<Longrightarrow> fstore_inv f"
  by (auto simp: NewFunctionStore_def fstore_inv_def)

lemma fstore_inv_delete: "fstore_inv f \<Longrightarrow> fstore_inv (snd (DeleteFunction svc f))"
  by (auto simp: DeleteFunction_def fstore_inv_def split: if_splits)

lemma fstore_inv_add:
  assumes "fstore_inv f"
  shows "fstore_inv (snd (AddFunction env req f))"
proof (cases rule: AddFunction_cases[of env req f])
  case (stopped r f')
  with assms show ?thesis by (auto simp: fstore_inv_def)
next
  case (added md f' p digest)
  have dir: "path_Join [OCIDirectory, digest] \<in> fstore_dirs f'"
    using added(11,12) fstore_invD(3)[OF assms] by (cases "imageStore f digest") auto
  have keep: "imageStore f' d = Some q" if "imageStore f d = Some q" for d q
    using that added(8,10) by auto
  have "fd_Service (md_FunctionDeployment m) = svc \<and> (\<exists>d. imageStore f' d = Some (md_Package m) \<and>
      md_StorageDir m = path_Join [OCIDirectory, d])" if "functionMetaData f' svc = Some m" for svc m
  proof (cases "svc = fd_Service req")
    case True
    with that added show ?thesis by auto
  next
    case False
    with that added(9) have "functionMetaData f svc = Some m" by simp
    from fstore_invD(1,2)[OF assms this] keep show ?thesis by blast
  qed
  moreover have "pack_target q \<noteq> None \<and> path_Join [OCIDirectory, d] \<in> fstore_dirs f'"
    if "imageStore f' d = Some q" for d q
    using that added(7,10,11) dir fstore_invD(3)[OF assms, of d q] by (cases "d = digest") auto
  ultimately show ?thesis using added(1) by (simp add: fstore_inv_def)
qed

lemma snd_go_bind_return: "snd (go_bind m (\<lambda>x. go_return (g x)) s) = snd (m s)"
  by (cases "m s"; cases "fst (m s)") (auto simp: go_bind_def go_return_def split: outcome.splits)

lemma fstore_inv_update:
  assumes inv: "fstore_inv f"
  shows "fstore_inv (snd (UpdateFunction env req f))"
proof (cases "functionMetaData f (fd_Service req)")
  case None
  with inv show ?thesis by (simp add: UpdateFunction_unknown)
next
  case (Some md)
  show ?thesis
  proof (cases "fd_Image (md_FunctionDeployment md) = fd_Image req")
    case True
    from UpdateFunction_same_image[OF Some True, of env] obtain md' f'
      where upd: "UpdateFunction env req f = (Ret (Inr (md', False)), f')"
        "md_FunctionDeployment md' = req" "md_Package md' = md_Package md"
        "md_StorageDir md' = md_StorageDir md"
        "functionMetaData f' = (functionMetaData f)(fd_Service req \<mapsto> md')"
        "imageStore f' = imageStore f" "fstore_dirs f' = fstore_dirs f"
      by (auto simp del: fun_upd_apply)
    have "fd_Service (md_FunctionDeployment m) = svc \<and> (\<exists>d. imageStore f d = Some (md_Package m) \<and>
        md_StorageDir m = path_Join [OCIDirectory, d])" if "functionMetaData f' svc = Some m" for svc m
    proof (cases "svc = fd_Service req")
      case True
      with that upd fstore_invD(2)[OF inv Some] show ?thesis by auto
    next
      case False
      with that upd(5) have "functionMetaData f svc = Some m" by simp
      from fstore_invD(1,2)[OF inv this] show ?thesis by blast
    qed
    then show ?thesis using inv upd(1,6,7) by (simp add: fstore_inv_def)
  next
    case False
    have "fstore_inv (f\<lparr>functionMetaData := (functionMetaData f)(fd_Service req := None)\<rparr>)"
      using fstore_inv_delete[OF inv, of "fd_Service req"] by (simp add: DeleteFunction_def)
    then show ?thesis
      unfolding UpdateFunction_new_image[OF Some False] snd_go_bind_return by (rule fstore_inv_add)
  qed
qed

datatype fstore_op = FAdd fstore_env FunctionDeployment | FUpdate fstore_env FunctionDeployment
  | FDelete string

fun fstore_step :: "fstore_op \<Rightarrow> FunctionStore \<Rightarrow> FunctionStore" where
  "fstore_step (FAdd env req) f = snd (AddFunction env req f)"
| "fstore_step (FUpdate env req) f = snd (UpdateFunction env req f)"
| "fstore_step (FDelete svc) f = snd (DeleteFunction svc f)"

fun fstore_run :: "fstore_op list \<Rightarrow> FunctionStore \<Rightarrow> FunctionStore" where
  "fstore_run [] f = f"
| "fstore_run (x # xs) f = fstore_run xs (fstore_step x f)"

lemma fstore_inv_run: "fstore_inv f \<Longrightarrow> fstore_inv (fstore_run xs f)"
proof (induction xs arbitrary: f)
  case Nil
  then show ?case by simp
next
  case (Cons x xs)
  then have "fstore_inv (fstore_step x f)"
    by (cases x) (simp_all add: fstore_inv_add fstore_inv_update fstore_inv_delete)
  then show ?case using Cons.IH by simp
qed

section \<open>The contract of a function registry\<close>

text \<open>
  What a handler may rely on: the deployments by service name, an operation that adds one and fails
  when the name is taken, and one that removes it. A failed addition leaves the names alone.
\<close>

definition deployments :: "FunctionStore \<Rightarrow> string \<rightharpoonup> FunctionDeployment" where
  "deployments f = (\<lambda>svc. map_option md_FunctionDeployment (functionMetaData f svc))"

lemma deployments_update [simp]:
  "(\<lambda>x. map_option md_FunctionDeployment (((functionMetaData f)(svc \<mapsto> md)) x)) =
     (deployments f)(svc \<mapsto> md_FunctionDeployment md)"
  by (auto simp: deployments_def)

lemma dom_deployments: "dom (deployments f) = dom (functionMetaData f)"
  by (auto simp: deployments_def)

locale function_registry =
  fixes lookup :: "'s \<Rightarrow> string \<rightharpoonup> 'd"
    and svc_name :: "'d \<Rightarrow> string"
    and add_fn :: "'e \<Rightarrow> 'd \<Rightarrow> ('s, go_error + 'm) go"
    and del_fn :: "string \<Rightarrow> ('s, go_error option) go"
  assumes add_taken: "lookup s (svc_name d) \<noteq> None \<Longrightarrow> \<exists>e. add_fn env d s = (Ret (Inl e), s)"
    and add_done: "add_fn env d s = (Ret (Inr m), s') \<Longrightarrow> lookup s' = (lookup s)(svc_name d \<mapsto> d)"
    and add_failed: "add_fn env d s = (r, s') \<Longrightarrow> \<forall>m. r \<noteq> Ret (Inr m) \<Longrightarrow> lookup s' = lookup s"
    and del_done: "\<exists>s'. del_fn svc s = (Ret None, s') \<and> lookup s' = (lookup s)(svc := None)"
begin

lemma add_new: "add_fn env d s = (Ret (Inr m), s') \<Longrightarrow> lookup s (svc_name d) = None"
proof (rule ccontr)
  assume add: "add_fn env d s = (Ret (Inr m), s')" and "lookup s (svc_name d) \<noteq> None"
  from add_taken[OF this(2), of env] add show False by auto
qed

lemma add_twice:
  assumes "add_fn env d s = (Ret (Inr m), s')" and "svc_name d' = svc_name d"
  shows "\<exists>e. add_fn env' d' s' = (Ret (Inl e), s')"
proof -
  have "lookup s' (svc_name d') \<noteq> None" using add_done[OF assms(1)] assms(2) by simp
  then show ?thesis by (rule add_taken)
qed

lemma add_delete:
  assumes "add_fn env d s = (Ret (Inr m), s')" and "del_fn (svc_name d) s' = (r, s'')"
  shows "lookup s'' = lookup s"
proof -
  from del_done[of "svc_name d" s'] assms(2) have "lookup s'' = (lookup s')(svc_name d := None)" by auto
  with add_done[OF assms(1)] add_new[OF assms(1)] show ?thesis by auto
qed

lemma add_other:
  assumes "add_fn env d s = (r, s')" and "svc \<noteq> svc_name d"
  shows "lookup s' svc = lookup s svc"
proof (cases "\<exists>m. r = Ret (Inr m)")
  case True
  then obtain m where "r = Ret (Inr m)" ..
  with add_done[of env d s m s'] assms show ?thesis by simp
next
  case False
  with add_failed[OF assms(1)] show ?thesis by auto
qed

end

lemma AddFunction_taken:
  "functionMetaData f (fd_Service req) \<noteq> None \<Longrightarrow> \<exists>e. AddFunction env req f = (Ret (Inl e), f)"
  by (auto simp: AddFunction_def FunctionExists_def)

lemma AddFunction_done:
  assumes "AddFunction env req f = (Ret (Inr md), f')"
  shows "deployments f' = (deployments f)(fd_Service req \<mapsto> req)"
    and "functionMetaData f' = (functionMetaData f)(fd_Service req \<mapsto> md)"
    and "md_FunctionDeployment md = req"
proof -
  have *: "md_FunctionDeployment md = req \<and> functionMetaData f' = (functionMetaData f)(fd_Service req \<mapsto> md)"
  proof (cases rule: AddFunction_cases[of env req f])
    case (stopped r f'')
    from stopped(1) assms have "r = Ret (Inr md)" by simp
    with stopped(2) show ?thesis by blast
  next
    case (added md' f'' p digest)
    from added(1) assms have "md' = md" and "f'' = f'" by simp_all
    with added(4,9) show ?thesis by simp
  qed
  then show "md_FunctionDeployment md = req"
    and "functionMetaData f' = (functionMetaData f)(fd_Service req \<mapsto> md)" by simp_all
  with * show "deployments f' = (deployments f)(fd_Service req \<mapsto> req)"
    by (auto simp: deployments_def)
qed

lemma AddFunction_failed:
  assumes "AddFunction env req f = (r, f')" and "\<forall>md. r \<noteq> Ret (Inr md)"
  shows "functionMetaData f' = functionMetaData f" and "imageStore f' = imageStore f"
proof -
  have "functionMetaData f' = functionMetaData f \<and> imageStore f' = imageStore f"
  proof (cases rule: AddFunction_cases[of env req f])
    case (stopped r' f'')
    from stopped(1,3,4) assms(1) show ?thesis by simp
  next
    case (added md' f'' p digest)
    from added(1) assms show ?thesis by simp
  qed
  then show "functionMetaData f' = functionMetaData f" and "imageStore f' = imageStore f" by simp_all
qed

interpretation fstore: function_registry deployments fd_Service AddFunction DeleteFunction
proof unfold_locales
  show "deployments s (fd_Service d) \<noteq> None \<Longrightarrow> \<exists>e. AddFunction env d s = (Ret (Inl e), s)"
    for s d env using AddFunction_taken by (simp add: deployments_def)
next
  show "AddFunction env d s = (Ret (Inr m), s') \<Longrightarrow> deployments s' = (deployments s)(fd_Service d \<mapsto> d)"
    for env d s m s' by (rule AddFunction_done)
next
  show "AddFunction env d s = (r, s') \<Longrightarrow> \<forall>m. r \<noteq> Ret (Inr m) \<Longrightarrow> deployments s' = deployments s"
    for env d s r s' using AddFunction_failed(1)[of env d s r s'] by (simp add: deployments_def)
next
  show "\<exists>s'. DeleteFunction svc s = (Ret None, s') \<and> deployments s' = (deployments s)(svc := None)"
    for svc s by (auto simp: DeleteFunction_def deployments_def)
qed

section \<open>Properties\<close>

text \<open>
  The abstract registry: a map from service names to deployments. An operation says whether it
  succeeded; an update that fails on a known name removes it when the image of the request is
  another one (the old entry is deleted before the new one is added).
\<close>

definition op_service :: "fstore_op \<Rightarrow> string" where
  "op_service x = (case x of FAdd env req \<Rightarrow> fd_Service req | FUpdate env req \<Rightarrow> fd_Service req | FDelete svc \<Rightarrow> svc)"

fun op_succeeds :: "fstore_op \<Rightarrow> FunctionStore \<Rightarrow> bool" where
  "op_succeeds (FAdd env req) f = (case fst (AddFunction env req f) of Ret (Inr _) \<Rightarrow> True | _ \<Rightarrow> False)"
| "op_succeeds (FUpdate env req) f = (case fst (UpdateFunction env req f) of Ret (Inr _) \<Rightarrow> True | _ \<Rightarrow> False)"
| "op_succeeds (FDelete svc) f = True"

fun registry_spec :: "fstore_op \<Rightarrow> bool \<Rightarrow> (string \<rightharpoonup> FunctionDeployment) \<Rightarrow> (string \<rightharpoonup> FunctionDeployment)" where
  "registry_spec (FAdd env req) done_ok D =
     (if done_ok then D(fd_Service req \<mapsto> req) else D)"
| "registry_spec (FUpdate env req) done_ok D =
     (if done_ok then D(fd_Service req \<mapsto> req) else D(fd_Service req := None))"
| "registry_spec (FDelete svc) done_ok D = D(svc := None)"

definition registry_allows :: "fstore_op \<Rightarrow> (string \<rightharpoonup> FunctionDeployment) \<Rightarrow> bool" where
  "registry_allows x D = (case x of
      FAdd env req \<Rightarrow> D (fd_Service req) = None
    | FUpdate env req \<Rightarrow> D (fd_Service req) \<noteq> None
    | FDelete svc \<Rightarrow> True)"

lemma step_add_refines:
  "deployments (fstore_step (FAdd env req) f) =
     registry_spec (FAdd env req) (op_succeeds (FAdd env req) f) (deployments f)"
proof (cases "AddFunction env req f")
  case (Pair r f')
  show ?thesis
  proof (cases "\<exists>md. r = Ret (Inr md)")
    case True
    then show ?thesis using Pair AddFunction_done(1) by auto
  next
    case False
    then have "\<not> op_succeeds (FAdd env req) f"
      by (auto simp: Pair split: outcome.splits sum.splits)
    with False Pair AddFunction_failed(1)[OF Pair] show ?thesis by (simp add: deployments_def)
  qed
qed

lemma step_update_refines:
  "deployments (fstore_step (FUpdate env req) f) =
     registry_spec (FUpdate env req) (op_succeeds (FUpdate env req) f) (deployments f)"
proof (cases "functionMetaData f (fd_Service req)")
  case None
  then have "deployments f (fd_Service req) = None" by (simp add: deployments_def)
  then show ?thesis using None by (auto simp: UpdateFunction_unknown)
next
  case (Some md)
  show ?thesis
  proof (cases "fd_Image (md_FunctionDeployment md) = fd_Image req")
    case True
    from UpdateFunction_same_image[OF Some True, of env]
    show ?thesis by (auto simp: deployments_def)
  next
    case False
    define g where "g = f\<lparr>functionMetaData := (functionMetaData f)(fd_Service req := None)\<rparr>"
    have dg: "deployments g = (deployments f)(fd_Service req := None)"
      by (auto simp: g_def deployments_def)
    note upd = UpdateFunction_new_image[OF Some False, of env, folded g_def]
    have "deployments (snd (UpdateFunction env req f)) = deployments (snd (AddFunction env req g))"
      by (simp add: upd snd_go_bind_return)
    moreover have "op_succeeds (FUpdate env req) f = op_succeeds (FAdd env req) g"
      by (simp add: upd go_bind_def go_return_def split: prod.splits outcome.splits sum.splits)
    ultimately show ?thesis using step_add_refines[of env req g] dg by simp
  qed
qed

lemma add_other_functions:
  assumes "svc \<noteq> fd_Service req"
  shows "functionMetaData (snd (AddFunction env req f)) svc = functionMetaData f svc"
proof (cases rule: AddFunction_cases[of env req f])
  case (stopped r f')
  then show ?thesis by simp
next
  case (added md f' p digest)
  with assms show ?thesis by simp
qed

lemma step_other_functions:
  assumes "svc \<noteq> op_service x"
  shows "functionMetaData (fstore_step x f) svc = functionMetaData f svc"
proof (cases x)
  case (FAdd env req)
  with assms show ?thesis by (simp add: op_service_def add_other_functions)
next
  case (FDelete name)
  with assms show ?thesis by (simp add: op_service_def DeleteFunction_def)
next
  case (FUpdate env req)
  with assms have ne: "svc \<noteq> fd_Service req" by (simp add: op_service_def)
  show ?thesis
  proof (cases "functionMetaData f (fd_Service req)")
    case None
    with FUpdate show ?thesis by (simp add: UpdateFunction_unknown)
  next
    case (Some md)
    show ?thesis
    proof (cases "fd_Image (md_FunctionDeployment md) = fd_Image req")
      case True
      from UpdateFunction_same_image[OF Some True, of env] ne FUpdate show ?thesis by auto
    next
      case False
      from ne FUpdate show ?thesis
        by (simp add: UpdateFunction_new_image[OF Some False] snd_go_bind_return add_other_functions)
    qed
  qed
qed

text \<open>
  C19: the store refines the registry of deployments: every call changes the deployments the way
  the abstract operation does, whatever containerd answers, and an addition succeeds only for a
  free name, an update only for a known one.
\<close>

theorem fstore_refines_registry:
  "deployments (fstore_step x f) = registry_spec x (op_succeeds x f) (deployments f) \<and>
   (op_succeeds x f \<longrightarrow> registry_allows x (deployments f)) \<and>
   (\<forall>svc. svc \<noteq> op_service x \<longrightarrow> functionMetaData (fstore_step x f) svc = functionMetaData f svc)"
proof (intro conjI)
  show "deployments (fstore_step x f) = registry_spec x (op_succeeds x f) (deployments f)"
  proof (cases x)
    case (FDelete svc)
    then show ?thesis by (auto simp: DeleteFunction_def deployments_def)
  qed (simp_all only: step_add_refines step_update_refines)
  show "op_succeeds x f \<longrightarrow> registry_allows x (deployments f)"
  proof (cases x)
    case (FAdd env req)
    then show ?thesis using AddFunction_taken[of f req env]
      by (cases "functionMetaData f (fd_Service req)") (auto simp: registry_allows_def deployments_def)
  next
    case (FUpdate env req)
    then show ?thesis
      by (cases "functionMetaData f (fd_Service req)")
        (simp_all add: registry_allows_def deployments_def UpdateFunction_unknown)
  qed (simp add: registry_allows_def)
  show "\<forall>svc. svc \<noteq> op_service x \<longrightarrow> functionMetaData (fstore_step x f) svc = functionMetaData f svc"
    using step_other_functions by blast
qed

text \<open>A request, and answers of the libraries, to run the operations on.\<close>

definition sample_req :: "string \<Rightarrow> string \<Rightarrow> FunctionDeployment" where
  "sample_req svc img = \<lparr>fd_Service = svc, fd_Image = img, fd_Namespace = ''openfaas-fn'',
     fd_EnvProcess = '''', fd_EnvVars = Map.empty, fd_Constraints = [], fd_Secrets = [],
     fd_Labels = None, fd_Annotations = None, fd_Limits = None, fd_Requests = None,
     fd_ReadOnlyRootFilesystem = False\<rparr>"

definition sample_pack :: "string \<Rightarrow> Package" where
  "sample_pack name = \<lparr>pack_Name = name, pack_target = Some \<lparr>tg_Architecture = ''x86_64'',
     tg_Platform = ''qemu'', tg_Format = ''oci'', tg_Kernel = ''unikraft/bin/kernel''\<rparr>\<rparr>"

definition sample_manifest :: "string \<Rightarrow> Manifest" where
  "sample_manifest digest = \<lparr>mf_Annotations = [''org.unikraft.image.name'' \<mapsto> ''app'',
     ''org.unikraft.image.version'' \<mapsto> ''v1''], mf_ConfigDigest = digest\<rparr>"

definition sample_env :: "(go_error + Package) \<Rightarrow> string \<Rightarrow> fstore_env" where
  "sample_env pulled digest = \<lparr>ParseReference = Inr, ListManifests = Inr [sample_manifest digest],
     NewPackageFromOCIManifestSpec = (\<lambda>name _. Inr (sample_pack name)), fs_MkdirAll = (\<lambda>_. None),
     fs_Detect = Inr ''qemu'', Pull = (\<lambda>_ _ _. pulled), time_Now = 7\<rparr>"

definition sample_store :: FunctionStore where
  "sample_store = \<lparr>imageStore = Map.empty, functionMetaData = Map.empty, fstore_dirs = {}\<rparr>"

definition sample_md :: "string \<Rightarrow> FunctionMetaData" where
  "sample_md svc = \<lparr>md_CreatedAt = 7, md_FunctionDeployment = sample_req svc ''app:v1'',
     md_Package = sample_pack ''app:v1'', md_StorageDir = path_Join [OCIDirectory, ''56:ab'']\<rparr>"

definition sample_full :: "string \<Rightarrow> FunctionStore" where
  "sample_full svc = \<lparr>imageStore = [''56:ab'' \<mapsto> sample_pack ''app:v1''],
     functionMetaData = [svc \<mapsto> sample_md svc], fstore_dirs = {path_Join [OCIDirectory, ''56:ab'']}\<rparr>"

lemmas sample_defs = sample_req_def sample_pack_def sample_manifest_def sample_env_def
  sample_store_def sample_md_def sample_full_def

lemma sample_locate:
  "locate_image (sample_env pulled ''sha256:ab'') (sample_req svc ''app:v1'') f =
     (Ret (Inr (sample_pack ''app:v1'', ''56:ab'')), f)"
  by (simp add: locate_image_def sample_env_def sample_manifest_def sample_req_def)

lemma sample_add:
  "AddFunction (sample_env (Inr (sample_pack ''app:v1'')) ''sha256:ab'') (sample_req svc ''app:v1'')
     sample_store = (Ret (Inr (sample_md svc)), sample_full svc)"
proof -
  let ?env = "sample_env (Inr (sample_pack ''app:v1'')) ''sha256:ab''"
  let ?dir = "path_Join [OCIDirectory, ''56:ab'']"
  have new: "\<not> FunctionExists (fd_Service (sample_req svc ''app:v1'')) sample_store"
    by (simp add: FunctionExists_def sample_store_def)
  have fetch: "fetch_image ?env (sample_pack ''app:v1'') ''56:ab'' sample_store =
      (Ret (Inr (sample_pack ''app:v1'')), sample_store\<lparr>fstore_dirs := {?dir}\<rparr>)"
    by (simp add: fetch_image_def pull_image_def sample_store_def sample_env_def)
  have reg: "register_function ?env (sample_req svc ''app:v1'') (sample_pack ''app:v1'') ''56:ab'' ?dir
      (sample_store\<lparr>fstore_dirs := {?dir}\<rparr>) = (Ret (Inr (sample_md svc)), sample_full svc)"
    by (simp add: register_function_def Let_def sample_defs)
  from AddFunction_new[OF new sample_locate fetch] show ?thesis by (simp only: sum.case reg)
qed

theorem fstore_refines_registry_witness:
  "registry_allows (FAdd (sample_env (Inr (sample_pack ''app:v1'')) ''sha256:ab'') (sample_req ''f'' ''app:v1''))
     (deployments sample_store)"
  using fstore_refines_registry[of "FAdd (sample_env (Inr (sample_pack ''app:v1'')) ''sha256:ab'')
      (sample_req ''f'' ''app:v1'')" sample_store]
  by (simp add: sample_add)

text \<open>
  From the empty store on, whatever was added, updated and deleted, each function is stored under
  the service name of its deployment, its package is a target and is the image stored for a digest,
  and its storage directory is the directory of that digest and was created.
\<close>

theorem fstore_reachable_functions:
  assumes "NewFunctionStore None None = Inr f0"
    and "functionMetaData (fstore_run xs f0) svc = Some md"
  shows "fd_Service (md_FunctionDeployment md) = svc \<and> pack_target (md_Package md) \<noteq> None \<and>
    md_StorageDir md \<in> fstore_dirs (fstore_run xs f0) \<and>
    (\<exists>digest. imageStore (fstore_run xs f0) digest = Some (md_Package md) \<and>
       md_StorageDir md = path_Join [OCIDirectory, digest])"
proof -
  have inv: "fstore_inv (fstore_run xs f0)" by (rule fstore_inv_run[OF fstore_inv_new[OF assms(1)]])
  from fstore_invD(1,2)[OF inv assms(2)] fstore_inv_function[OF inv assms(2)] show ?thesis by blast
qed

theorem fstore_reachable_functions_witness:
  "md_StorageDir (sample_md ''f'') \<in> fstore_dirs (sample_full ''f'')"
proof -
  have new: "NewFunctionStore None None = Inr sample_store"
    by (simp add: NewFunctionStore_def sample_store_def)
  let ?xs = "[FAdd (sample_env (Inr (sample_pack ''app:v1'')) ''sha256:ab'') (sample_req ''f'' ''app:v1'')]"
  have run: "fstore_run ?xs sample_store = sample_full ''f''" by (simp add: sample_add)
  have "functionMetaData (fstore_run ?xs sample_store) ''f'' = Some (sample_md ''f'')"
    unfolding run by (simp add: sample_full_def)
  from fstore_reachable_functions[OF new this] run show ?thesis by simp
qed

text \<open>
  C20: an image is pulled once: when the store holds an image for the digest, deploying another
  function from it succeeds whatever a pull, the platform detection or the creation of the directory
  would answer; the function gets the stored package, and the directories and the images stay.
\<close>

theorem cached_image_not_pulled:
  assumes inv: "fstore_inv f" and new: "functionMetaData f (fd_Service req) = None"
    and loc: "locate_image env req f = (Ret (Inr (p, digest)), f)"
    and cached: "imageStore f digest = Some q"
  shows "\<exists>md. AddFunction env req f =
      (Ret (Inr md), f\<lparr>functionMetaData := (functionMetaData f)(fd_Service req \<mapsto> md)\<rparr>) \<and>
    md_Package md = q \<and> md_StorageDir md = path_Join [OCIDirectory, digest] \<and>
    md_FunctionDeployment md = req"
proof -
  from fstore_invD(3)[OF inv cached] obtain t where t: "pack_target q = Some t" by auto
  have fresh: "\<not> FunctionExists (fd_Service req) f" using new by (simp add: FunctionExists_def)
  have fetch: "fetch_image env p digest f = (Ret (Inr q), f)" using cached by (simp add: fetch_image_def)
  have "(imageStore f)(digest \<mapsto> q) = imageStore f" using cached by (rule map_upd_triv)
  then show ?thesis
    by (simp add: AddFunction_new[OF fresh loc fetch] register_function_def Let_def t)
qed

theorem cached_image_not_pulled_witness:
  "\<exists>md. fst (AddFunction (sample_env (Inl (LibError ''no network'')) ''sha256:ab'')
      (sample_req ''g'' ''app:v1'') (sample_full ''f'')) = Ret (Inr md)"
proof -
  have "fstore_inv (sample_full ''f'')" by (simp add: fstore_inv_def sample_defs)
  note * = cached_image_not_pulled[OF this, where req = "sample_req ''g'' ''app:v1''", OF _ sample_locate,
      where q = "sample_pack ''app:v1''"]
  have "\<exists>md. AddFunction (sample_env (Inl (LibError ''no network'')) ''sha256:ab'')
      (sample_req ''g'' ''app:v1'') (sample_full ''f'') = (Ret (Inr md),
        (sample_full ''f'')\<lparr>functionMetaData := (functionMetaData (sample_full ''f''))
           (fd_Service (sample_req ''g'' ''app:v1'') \<mapsto> md)\<rparr>)"
    using * by (auto simp: sample_full_def sample_req_def)
  then show ?thesis by auto
qed

text \<open>
  C21: an update to another image that fails loses the function: the old entry is gone from the
  store, and the next update of the name answers that the function is not found.
\<close>

theorem failed_update_loses_function:
  assumes known: "functionMetaData f (fd_Service req) = Some md"
    and other: "fd_Image (md_FunctionDeployment md) \<noteq> fd_Image req"
    and failed: "\<not> op_succeeds (FUpdate env req) f"
  shows "GetFunction (fd_Service req) (snd (UpdateFunction env req f)) =
      Inl (Errorf (''function '' @ fd_Service req @ '' not found'')) \<and>
    fst (UpdateFunction env' req (snd (UpdateFunction env req f))) =
      Ret (Inl (Errorf (''function '' @ fd_Service req @ '' not found'')))"
proof -
  have "deployments (snd (UpdateFunction env req f)) (fd_Service req) = None"
    using step_update_refines[of env req f] failed by simp
  then have "functionMetaData (snd (UpdateFunction env req f)) (fd_Service req) = None"
    by (simp add: deployments_def)
  then show ?thesis by (simp add: GetFunction_def UpdateFunction_unknown)
qed

theorem failed_update_loses_function_witness:
  "GetFunction ''f'' (snd (UpdateFunction (sample_env (Inl (LibError ''no network'')) ''sha256:ab'')
      (sample_req ''f'' ''app:v2'') (sample_full ''f''))) = Inl (Errorf ''function f not found'')"
proof -
  let ?env = "sample_env (Inl (LibError ''no network'')) ''sha256:ab''"
  let ?req = "sample_req ''f'' ''app:v2''"
  have known: "functionMetaData (sample_full ''f'') (fd_Service ?req) = Some (sample_md ''f'')"
    by (simp add: sample_full_def sample_req_def)
  have other: "fd_Image (md_FunctionDeployment (sample_md ''f'')) \<noteq> fd_Image ?req"
    by (simp add: sample_md_def sample_req_def)
  have "\<not> op_succeeds (FUpdate ?env ?req) (sample_full ''f'')"
    by (simp add: UpdateFunction_def GetFunction_def DeleteFunction_def AddFunction_def
        FunctionExists_def locate_image_def go_bind_def go_return_def sample_defs)
  from failed_update_loses_function[OF known other this] show ?thesis by (simp add: sample_req_def)
qed

text \<open>
  An update that keeps the image replaces the deployment, keeps the package and its directory,
  and resets the creation time: the status shows the new deployment, created at the zero time.
\<close>

theorem same_image_update:
  assumes "functionMetaData f (fd_Service req) = Some md"
    and "fd_Image (md_FunctionDeployment md) = fd_Image req"
  shows "\<exists>md'. UpdateFunction env req f =
      (Ret (Inr (md', False)), f\<lparr>functionMetaData := (functionMetaData f)(fd_Service req \<mapsto> md')\<rparr>) \<and>
    md_Package md' = md_Package md \<and> md_StorageDir md' = md_StorageDir md \<and>
    md_FunctionDeployment md' = req \<and>
    GetFunctionStatus (fd_Service req) (snd (UpdateFunction env req f)) =
      Inr (status_of (fd_Service req) md' 0)"
  using assms by (simp add: UpdateFunction_def GetFunction_def GetFunctionStatus_def Let_def)

theorem same_image_update_witness:
  "\<exists>st. GetFunctionStatus ''f'' (snd (UpdateFunction (sample_env (Inl (LibError '''')) '''')
      (sample_req ''f'' ''app:v1'') (sample_full ''f''))) = Inr st \<and> st_CreatedAt st = 0"
proof -
  have "functionMetaData (sample_full ''f'') (fd_Service (sample_req ''f'' ''app:v1'')) = Some (sample_md ''f'')"
    and "fd_Image (md_FunctionDeployment (sample_md ''f'')) = fd_Image (sample_req ''f'' ''app:v1'')"
    by (simp_all add: sample_full_def sample_req_def sample_md_def)
  from same_image_update[OF this, of "sample_env (Inl (LibError '''')) ''''"]
  show ?thesis by (auto simp: status_of_def Let_def sample_req_def)
qed

text \<open>
  A failed pull leaves the directory it made: the error is returned, no function and no image is
  stored, and the storage directory of the digest is still on disk.
\<close>

theorem failed_pull_leaves_directory:
  assumes "functionMetaData f (fd_Service req) = None"
    and "locate_image env req f = (Ret (Inr (p, digest)), f)" and "imageStore f digest = None"
    and "fs_MkdirAll env (path_Join [OCIDirectory, digest]) = None"
    and "fs_Detect env = Inr platform"
    and "Pull env p (path_Join [OCIDirectory, digest]) platform = Inl err"
  shows "AddFunction env req f =
    (Ret (Inl err), f\<lparr>fstore_dirs := insert (path_Join [OCIDirectory, digest]) (fstore_dirs f)\<rparr>)"
proof -
  have fresh: "\<not> FunctionExists (fd_Service req) f" using assms(1) by (simp add: FunctionExists_def)
  have "fetch_image env p digest f =
      (Ret (Inl err), f\<lparr>fstore_dirs := insert (path_Join [OCIDirectory, digest]) (fstore_dirs f)\<rparr>)"
    using assms(3-6) by (simp add: fetch_image_def pull_image_def Let_def)
  from AddFunction_new[OF fresh assms(2) this] show ?thesis by simp
qed

theorem failed_pull_leaves_directory_witness:
  "path_Join [OCIDirectory, ''56:ab''] \<in> fstore_dirs (snd (AddFunction
      (sample_env (Inl (LibError ''no network'')) ''sha256:ab'') (sample_req ''f'' ''app:v1'') sample_store))"
proof -
  let ?env = "sample_env (Inl (LibError ''no network'')) ''sha256:ab''"
  have "fs_Detect ?env = Inr ''qemu''" by (simp add: sample_env_def)
  from failed_pull_leaves_directory[OF _ sample_locate _ _ this]
  show ?thesis by (simp add: sample_store_def sample_env_def)
qed

text \<open>
  C22: the digest of an image is cut in its algorithm name: a package of digest \<open>sha256:h\<close> is stored
  under \<open>56:h\<close>, in the directory of that name, and a digest of fewer than four characters makes
  the deployment panic without changing the store.
\<close>

theorem digest_cut_inside_algorithm:
  assumes "functionMetaData f (fd_Service req) = None" and "ParseReference env (fd_Image req) = Inr refName"
    and "ListManifests env = Inr manifests"
    and "find_package env refName manifests None '''' = (Some p, d)"
  shows "(length d < 4 \<longrightarrow> AddFunction env req f = (Panic ''slice bounds out of range'', f)) \<and>
    (\<forall>h md f'. d = ''sha256:'' @ h \<longrightarrow> AddFunction env req f = (Ret (Inr md), f') \<longrightarrow>
       md_StorageDir md = path_Join [OCIDirectory, ''56:'' @ h] \<and>
       imageStore f' (''56:'' @ h) = Some (md_Package md))"
proof (intro conjI allI impI)
  assume "length d < 4"
  then show "AddFunction env req f = (Panic ''slice bounds out of range'', f)"
    using assms by (simp add: AddFunction_def FunctionExists_def locate_image_def)
next
  fix h md f'
  assume d: "d = ''sha256:'' @ h" and add: "AddFunction env req f = (Ret (Inr md), f')"
  have loc: "locate_image env req f = (Ret (Inr (p, ''56:'' @ h)), f)"
    using assms d by (simp add: locate_image_def)
  show "md_StorageDir md = path_Join [OCIDirectory, ''56:'' @ h]"
    and "imageStore f' (''56:'' @ h) = Some (md_Package md)"
    using add loc by (cases rule: AddFunction_cases[of env req f]; fastforce)+
qed

theorem digest_cut_inside_algorithm_witness:
  "md_StorageDir (sample_md ''f'') = path_Join [OCIDirectory, ''56:'' @ ''ab'']"
proof -
  let ?env = "sample_env (Inr (sample_pack ''app:v1'')) ''sha256:ab''"
  have new: "functionMetaData sample_store (fd_Service (sample_req ''f'' ''app:v1'')) = None"
    by (simp add: sample_store_def)
  have "find_package ?env ''app:v1'' [sample_manifest ''sha256:ab''] None '''' =
      (Some (sample_pack ''app:v1''), ''sha256:'' @ ''ab'')"
    by (simp add: sample_env_def sample_manifest_def)
  from digest_cut_inside_algorithm[OF new _ _ this] sample_add[of "''f''"]
  show ?thesis by (simp add: sample_req_def sample_env_def)
qed

end
