(* ===== verification/MachineStore.thy ===== *)
theory MachineStore
  imports FunctionStore NetworkApi
begin

text \<open>
  The store of running machines, \<open>pkg/store/machine.go\<close>: the replicas of every function, their
  network interfaces, creation, cloning, destruction, scaling and health checks. The state of the
  network controller is a component of the store's, and its methods are an argument; hypervisor,
  bridge, netlink and file system answer through \<open>machine_env\<close>, one for each call.
\<close>

section \<open>Data\<close>

text \<open>The states of kraftkit, and the empty string, which is the state of a new object.\<close>

datatype MachineState = MachineStateEmpty | MachineStateUnknown | MachineStateCreated | MachineStateFailed
  | MachineStateRestarting | MachineStateRunning | MachineStatePaused | MachineStateSuspended
  | MachineStateExited

text \<open>What the code sets of a network interface and of a machine of kraftkit.\<close>

record NetIface =
  if_UID :: string
  if_IfName :: string
  if_IP :: string

record Machine =
  mc_UID :: string
  mc_Name :: string
  mc_Labels :: mapref
  mc_Annotations :: mapref
  mc_Architecture :: string
  mc_Platform :: string
  mc_Kernel :: string
  mc_Volumes :: "string list"
  mc_Networks :: "NetIface list list"
  mc_KernelPath :: string
  mc_StateDir :: string
  mc_State :: MachineState

record MachineRequest =
  mr_Service :: string
  mr_Image :: string
  mr_Namespace :: string
  mr_Architecture :: string
  mr_Platform :: string
  mr_Kernel :: string
  mr_KernelPath :: string
  mr_StoragePath :: string
  mr_Annotations :: "mapref option"
  mr_Labels :: "mapref option"

text \<open>
  The fields of the struct, and what its methods reach besides: the Go maps behind labels and
  annotations (\<open>map_heap\<close>, allocated in order), the state directories on disk, and the goroutines
  that wait for the watchdog of a machine (service and address). A mutex is true while it is held.
\<close>

record 'n MachineStore =
  ms_lock :: bool
  healthChecklock :: bool
  machineInstanceMapv2 :: "string \<rightharpoonup> Machine"
  machineNetworkMapv2 :: "string \<rightharpoonup> NetIface"
  networkController :: 'n
  map_heap :: "mapref \<Rightarrow> string \<rightharpoonup> string"
  heap_next :: mapref
  state_dirs :: "string set"
  pending :: "(string \<times> IP) list"

text \<open>
  The answers of the libraries. A method of the machine service answers with the machine object it
  was given, updated in place, or with nil: the object after the call, whether the result is nil,
  and the error. \<open>Detect\<close> gives a platform and an error.
\<close>

record machine_env =
  uuid_NewUUID :: string
  os_MkdirAll :: "string \<Rightarrow> go_error option"
  os_Stat :: "string \<Rightarrow> go_error option"
  cp_rT :: "string \<Rightarrow> string \<Rightarrow> go_error option"
  NewVolumeService :: "go_error option"
  volume_Create :: "string \<Rightarrow> go_error + string"
  NewNetworkService :: "go_error option"
  network_Get :: "string \<Rightarrow> go_error + NetIface list"
  network_Update :: "NetIface list \<Rightarrow> go_error + NetIface list"
  NewRandomMachineName :: string
  mp_Detect :: "string \<times> go_error option"
  Strategies :: "string \<Rightarrow> bool"
  NewMachineV1alpha1 :: "string \<Rightarrow> go_error option"
  machine_Create :: "Machine \<Rightarrow> Machine \<times> bool \<times> go_error option"
  machine_Start :: "Machine \<Rightarrow> Machine \<times> bool \<times> go_error option"
  machine_Stop :: "Machine \<Rightarrow> Machine \<times> bool \<times> go_error option"
  machine_Get :: "Machine \<Rightarrow> Machine \<times> bool \<times> go_error option"
  LinkByName :: "string \<Rightarrow> go_error option"
  LinkSetDown :: "string \<Rightarrow> go_error option"
  LinkDel :: "string \<Rightarrow> go_error option"

text \<open>The order in which \<open>Range\<close> visits a map, chosen by the runtime at each call.\<close>

type_synonym range_of = "(string \<rightharpoonup> Machine) \<Rightarrow> string list"

definition service_label :: string where "service_label = ''ukfaas.io/service''"
definition image_label :: string where "image_label = ''ukfaas.io/image''"
definition namespace_label :: string where "namespace_label = ''ukfaas.io/namespace''"
definition filesystem_annotation :: string where "filesystem_annotation = ''ukfaas.io/filesystem''"

lemmas label_defs = service_label_def image_label_def namespace_label_def filesystem_annotation_def

lemma labels_distinct [simp]:
  "service_label \<noteq> image_label" "service_label \<noteq> namespace_label" "image_label \<noteq> namespace_label"
  "service_label \<noteq> filesystem_annotation" "image_label \<noteq> filesystem_annotation"
  "namespace_label \<noteq> filesystem_annotation" "image_label \<noteq> service_label"
  "namespace_label \<noteq> service_label" "namespace_label \<noteq> image_label"
  "filesystem_annotation \<noteq> service_label" "filesystem_annotation \<noteq> image_label"
  "filesystem_annotation \<noteq> namespace_label"
  by (simp_all add: label_defs)

section \<open>Reading the store\<close>

definition NewMachineStore :: "'n \<Rightarrow> 'n MachineStore" where
  "NewMachineStore ns = \<lparr>ms_lock = False, healthChecklock = False, machineInstanceMapv2 = Map.empty,
     machineNetworkMapv2 = Map.empty, networkController = ns, map_heap = (\<lambda>_. Map.empty),
     heap_next = 0, state_dirs = {}, pending = []\<rparr>"

definition service_of :: "'n MachineStore \<Rightarrow> Machine \<Rightarrow> string" where
  "service_of m machine = go_lookup (map_heap m (mc_Labels machine)) service_label"

definition is_running :: "Machine \<Rightarrow> bool" where
  "is_running machine \<longleftrightarrow> mc_State machine = MachineStateRunning"

fun machines_for :: "'n MachineStore \<Rightarrow> string \<Rightarrow> string list \<Rightarrow> Machine list" where
  "machines_for m service [] = []"
| "machines_for m service (key # keys) =
     (case machineInstanceMapv2 m key of
        None \<Rightarrow> machines_for m service keys
      | Some machine \<Rightarrow>
          (if service_of m machine = service then machine # machines_for m service keys
           else machines_for m service keys))"

definition GetMachinesForFunction :: "string list \<Rightarrow> string \<Rightarrow> 'n MachineStore \<Rightarrow> go_error + Machine list" where
  "GetMachinesForFunction order service m = Inr (machines_for m service order)"

text \<open>The test of \<open>GetReplicas\<close> and \<open>getFunctionMachine\<close> on an entry.\<close>

definition serves :: "'n MachineStore \<Rightarrow> string \<Rightarrow> string \<Rightarrow> bool" where
  "serves m service key = (case machineInstanceMapv2 m key of
      None \<Rightarrow> False
    | Some machine \<Rightarrow> service_of m machine = service \<and> is_running machine)"

definition GetReplicas :: "string list \<Rightarrow> string \<Rightarrow> 'n MachineStore \<Rightarrow> 64 word" where
  "GetReplicas order service m = of_nat (length (filter (serves m service) order))"

definition GetAvailableReplicas :: "'n NetworkController \<Rightarrow> string \<Rightarrow> 'n MachineStore \<Rightarrow> 64 word" where
  "GetAvailableReplicas nc service m =
     (case AvailableIPs nc service (networkController m) of Inr n \<Rightarrow> n | Inl err \<Rightarrow> 0)"

definition getFunctionMachine :: "string list \<Rightarrow> string \<Rightarrow> 'n MachineStore \<Rightarrow> go_error + Machine" where
  "getFunctionMachine order service m =
     (case find (serves m service) order of
        None \<Rightarrow> Inl (Errorf (''function '' @ service @ '' not found''))
      | Some key \<Rightarrow> Inr (the (machineInstanceMapv2 m key)))"

section \<open>Destroying a machine\<close>

text \<open>A call of a method of the network controller.\<close>

definition on_controller :: "('n, 'a) go \<Rightarrow> ('n MachineStore, 'a) go" where
  "on_controller call m =
     (case call (networkController m) of (r, ns) \<Rightarrow> (r, m\<lparr>networkController := ns\<rparr>))"

text \<open>The machine service of the detected platform.\<close>

definition machine_service :: "machine_env \<Rightarrow> go_error option" where
  "machine_service env =
     (case mp_Detect env of
        (platform, Some err) \<Rightarrow> Some err
      | (platform, None) \<Rightarrow>
          (if Strategies env platform then NewMachineV1alpha1 env platform
           else Some (Errorf (''platform '' @ platform @ '' not supported''))))"

text \<open>An object that the map holds a pointer to, updated in place.\<close>

definition update_object :: "string \<Rightarrow> Machine \<Rightarrow> 'n MachineStore \<Rightarrow> 'n MachineStore" where
  "update_object key obj m = (case machineInstanceMapv2 m key of
      None \<Rightarrow> m
    | Some _ \<Rightarrow> m\<lparr>machineInstanceMapv2 := (machineInstanceMapv2 m)(key \<mapsto> obj)\<rparr>)"

definition forget_machine :: "string \<Rightarrow> 'n MachineStore \<Rightarrow> 'n MachineStore" where
  "forget_machine mId m = m\<lparr>machineInstanceMapv2 := (machineInstanceMapv2 m)(mId := None),
     machineNetworkMapv2 := (machineNetworkMapv2 m)(mId := None)\<rparr>"

definition remove_link :: "machine_env \<Rightarrow> string \<Rightarrow> go_error option" where
  "remove_link env ifname =
     (case LinkSetDown env (take 15 ifname) of
        Some err \<Rightarrow> Some (Wrapf (''could not bring '' @ ifname @ '' link down: '') err)
      | None \<Rightarrow>
          (case LinkDel env (take 15 ifname) of
             Some err \<Rightarrow> Some (Wrapf (''could not delete '' @ ifname @ '' link: '') err)
           | None \<Rightarrow> None))"

definition stop_machine ::
  "machine_env \<Rightarrow> Machine \<Rightarrow> NetIface \<Rightarrow> ('n MachineStore, go_error option) go" where
  "stop_machine env machine iface m =
     (let mId = mc_UID machine; ifname = if_IfName iface in
      case machine_Stop env machine of (obj, isnil, stopErr) \<Rightarrow>
        (let m1 = update_object mId obj m in
         if length ifname < 15 then (Panic ''slice bounds out of range'', m1)
         else let linkErr = LinkByName env (take 15 ifname) in
           if isnil
           then (case (if linkErr = None then remove_link env ifname else None) of
                   Some err \<Rightarrow> (Ret (Some err), m1)
                 | None \<Rightarrow> (Ret linkErr, forget_machine mId m1))
           else (Ret linkErr, m1\<lparr>machineInstanceMapv2 := (machineInstanceMapv2 m1)(mId \<mapsto> obj)\<rparr>)))"

definition destroyMachine ::
  "'n NetworkController \<Rightarrow> machine_env \<Rightarrow> Machine \<Rightarrow> ('n MachineStore, go_error option) go" where
  "destroyMachine nc env machine m =
     (case machine_service env of
        Some err \<Rightarrow> (Ret (Some err), m)
      | None \<Rightarrow>
          (case machineNetworkMapv2 m (mc_UID machine) of
             None \<Rightarrow> (Ret (Some (Errorf (''network interface for '' @ mc_UID machine @ '' not found''))), m)
           | Some iface \<Rightarrow>
               go_bind (on_controller (DeleteServiceIP nc (service_of m machine) (if_IP iface)))
                 (\<lambda>err. case err of
                    Some e \<Rightarrow> go_return (Some e)
                  | None \<Rightarrow> stop_machine env machine iface) m))"

text \<open>The same in two steps: up to the answer of the network controller, and the rest.\<close>

definition deregister_machine ::
  "'n NetworkController \<Rightarrow> machine_env \<Rightarrow> Machine \<Rightarrow> ('n MachineStore, go_error + NetIface) go" where
  "deregister_machine nc env machine m =
     (case machine_service env of
        Some err \<Rightarrow> (Ret (Inl err), m)
      | None \<Rightarrow>
          (case machineNetworkMapv2 m (mc_UID machine) of
             None \<Rightarrow> (Ret (Inl (Errorf (''network interface for '' @ mc_UID machine @ '' not found''))), m)
           | Some iface \<Rightarrow>
               go_bind (on_controller (DeleteServiceIP nc (service_of m machine) (if_IP iface)))
                 (\<lambda>err. go_return (case err of Some e \<Rightarrow> Inl e | None \<Rightarrow> Inr iface)) m))"

lemma destroyMachine_steps:
  "destroyMachine nc env machine m =
     go_bind (deregister_machine nc env machine) (\<lambda>r. case r of
         Inl e \<Rightarrow> go_return (Some e)
       | Inr iface \<Rightarrow> stop_machine env machine iface) m"
  by (simp add: destroyMachine_def deregister_machine_def go_bind_def go_return_def
      split: option.split outcome.split prod.split)

text \<open>
  \<open>DeleteMachine\<close> in the two steps that other goroutines can come between: choosing a machine and
  marking it, so that it no longer counts as a replica, then destroying it.
\<close>

definition mark_machine :: "Machine \<Rightarrow> 'n MachineStore \<Rightarrow> 'n MachineStore" where
  "mark_machine machine m = m\<lparr>machineInstanceMapv2 :=
     (machineInstanceMapv2 m)(mc_UID machine \<mapsto> machine\<lparr>mc_State := MachineStateUnknown\<rparr>)\<rparr>"

definition DeleteMachine ::
  "'n NetworkController \<Rightarrow> machine_env \<Rightarrow> range_of \<Rightarrow> string \<Rightarrow> ('n MachineStore, go_error option) go" where
  "DeleteMachine nc env order_of service m =
     (case getFunctionMachine (order_of (machineInstanceMapv2 m)) service m of
        Inl notFoundErr \<Rightarrow> (Ret (Some notFoundErr), m)
      | Inr machine \<Rightarrow>
          destroyMachine nc env (machine\<lparr>mc_State := MachineStateUnknown\<rparr>) (mark_machine machine m))"

section \<open>Creating a machine\<close>

text \<open>
  The volume of a machine: the layer recorded in the annotation and the attached volumes. The
  errors of this block are variables of the block: the deferred clean-up does not see them.
\<close>

definition copyDirectory :: "machine_env \<Rightarrow> string \<Rightarrow> string \<Rightarrow> go_error option" where
  "copyDirectory env src dest = cp_rT env src dest"

definition setup_volume :: "machine_env \<Rightarrow> string \<Rightarrow> string \<Rightarrow> go_error + string \<times> string list" where
  "setup_volume env storagePath stateDir =
     (case os_Stat env storagePath of
        Some err \<Rightarrow> Inr ('''', [])
      | None \<Rightarrow>
          (case os_MkdirAll env (path_Join [stateDir, ''unikraft'']) of
             Some err \<Rightarrow> Inl err
           | None \<Rightarrow>
               (let volumePath = path_Join [stateDir, ''unikraft/fs0''] in
                case copyDirectory env storagePath volumePath of
                  Some err \<Rightarrow> Inl (Wrapf ''failed to copy volume directory : '' err)
                | None \<Rightarrow>
                    (case NewVolumeService env of
                       Some err \<Rightarrow> Inl (Errorf ''volume service failed'')
                     | None \<Rightarrow>
                         (case volume_Create env volumePath of
                            Inl err \<Rightarrow> Inl (Wrapf ''volume creation failed: '' err)
                          | Inr fs0 \<Rightarrow> Inr (storagePath, [fs0]))))))"

definition networkName :: string where "networkName = ''openfaas0''"

text \<open>The loop that looks for the new interface among those the bridge answers with.\<close>

definition own_interface :: "NetIface \<Rightarrow> NetIface list \<Rightarrow> NetIface" where
  "own_interface newIface ifaces =
     (case find (\<lambda>iface. if_UID iface = if_UID newIface) ifaces of
        Some iface \<Rightarrow> iface
      | None \<Rightarrow> newIface)"

text \<open>
  Adding an interface to the bridge. The error of the constructor of the network service is
  overwritten; a nil service makes the first call panic.
\<close>

definition setup_network :: "machine_env \<Rightarrow> string \<Rightarrow> (go_error + NetIface) outcome" where
  "setup_network env uid =
     (case NewNetworkService env of
        Some err \<Rightarrow> Panic ''nil pointer dereference''
      | None \<Rightarrow>
          (case network_Get env networkName of
             Inl err \<Rightarrow> Ret (Inl err)
           | Inr ifaces \<Rightarrow>
               (let newIface = \<lparr>if_UID = uid, if_IfName = networkName @ ''@if'' @ uid, if_IP = ''''\<rparr> in
                case network_Update env (ifaces @ [newIface]) of
                  Inl err \<Rightarrow> Ret (Inl err)
                | Inr ifaces' \<Rightarrow> Ret (Inr (own_interface newIface ifaces')))))"

text \<open>The map behind an optional pointer, or a fresh one.\<close>

definition map_or_new :: "mapref option \<Rightarrow> 'n MachineStore \<Rightarrow> mapref \<times> 'n MachineStore" where
  "map_or_new p m = (case p of
      Some r \<Rightarrow> (r, m)
    | None \<Rightarrow> (heap_next m, m\<lparr>map_heap := (map_heap m)(heap_next m := Map.empty),
                heap_next := Suc (heap_next m)\<rparr>))"

definition set_entry :: "mapref \<Rightarrow> string \<Rightarrow> string \<Rightarrow> 'n MachineStore \<Rightarrow> 'n MachineStore" where
  "set_entry r k v m = m\<lparr>map_heap := (map_heap m)(r := (map_heap m r)(k \<mapsto> v))\<rparr>"

definition set_labels ::
  "MachineRequest \<Rightarrow> string \<Rightarrow> 'n MachineStore \<Rightarrow> (mapref \<times> mapref) \<times> 'n MachineStore" where
  "set_labels mreq volumeLayer m =
     (let (annotations, m1) = map_or_new (mr_Annotations mreq) m;
          (labels, m2) = map_or_new (mr_Labels mreq) m1
      in ((labels, annotations),
          set_entry annotations filesystem_annotation volumeLayer
            (set_entry labels namespace_label (mr_Namespace mreq)
              (set_entry labels image_label (mr_Image mreq)
                (set_entry labels service_label (mr_Service mreq) m2)))))"

text \<open>
  What \<open>createMachine\<close> leaves for its deferred function: the error it returns, whether the variable
  \<open>err\<close> of the function is set at that point, and whether its variable \<open>machine\<close> is nil.
\<close>

type_synonym create_exit = "go_error option \<times> bool \<times> bool"

text \<open>
  From \<open>machineController.Create\<close> on, with the mutex held. Every return before \<open>Unlock\<close> keeps it.
\<close>

definition start_machine ::
  "machine_env \<Rightarrow> MachineRequest \<Rightarrow> NetIface \<Rightarrow> Machine \<Rightarrow> ('n MachineStore, create_exit) go" where
  "start_machine env mreq newIface machine m =
     (case machine_Create env machine of
        (obj, isnil, Some err) \<Rightarrow> (Ret (Some err, True, isnil), m)
      | (obj, isnil, None) \<Rightarrow>
          (let m1 = m\<lparr>ms_lock := False\<rparr> in
           if isnil then (Panic ''nil pointer dereference'', m1)
           else let m2 = m1\<lparr>pending := pending m1 @
                    map (\<lambda>iface. (mr_Service mreq, if_IP iface)) (concat (mc_Networks obj))\<rparr> in
             case machine_Start env obj of
               (obj', isnil', Some err) \<Rightarrow> (Ret (Some err, True, isnil'), m2)
             | (obj', isnil', None) \<Rightarrow>
                 (if isnil' then (Panic ''nil pointer dereference'', m2)
                  else (Ret (None, False, False),
                        m2\<lparr>machineInstanceMapv2 := (machineInstanceMapv2 m2)(mc_UID obj' \<mapsto> obj'),
                           machineNetworkMapv2 := (machineNetworkMapv2 m2)(mc_UID obj' \<mapsto> newIface)\<rparr>))))"

definition launch_machine ::
  "machine_env \<Rightarrow> MachineRequest \<Rightarrow> NetIface \<Rightarrow> Machine \<Rightarrow> ('n MachineStore, create_exit) go" where
  "launch_machine env mreq newIface machine m =
     (case mp_Detect env of
        (platform, detectErr) \<Rightarrow>
          (if \<not> Strategies env platform
           then (Ret (Some (Errorf (''platform '' @ platform @ '' not supported'')), detectErr \<noteq> None, False), m)
           else case NewMachineV1alpha1 env platform of
                  Some err \<Rightarrow> (Ret (Some err, True, False), m)
                | None \<Rightarrow> start_machine env mreq newIface machine m))"

definition new_machine_object ::
  "machine_env \<Rightarrow> MachineRequest \<Rightarrow> string \<Rightarrow> mapref \<times> mapref \<Rightarrow> string list \<Rightarrow> NetIface \<Rightarrow> Machine" where
  "new_machine_object env mreq stateDir refs volumes newIface =
     \<lparr>mc_UID = uuid_NewUUID env, mc_Name = NewRandomMachineName env,
      mc_Labels = fst refs, mc_Annotations = snd refs,
      mc_Architecture = mr_Architecture mreq, mc_Platform = mr_Platform mreq,
      mc_Kernel = mr_Kernel mreq, mc_Volumes = volumes, mc_Networks = [[newIface]],
      mc_KernelPath = mr_KernelPath mreq, mc_StateDir = stateDir, mc_State = MachineStateEmpty\<rparr>"

text \<open>
  The body after the state directory is made. When the network service is nil the deferred function
  runs during the panic, with \<open>err\<close> set, and removes the directory.
\<close>

definition create_body ::
  "machine_env \<Rightarrow> MachineRequest \<Rightarrow> string \<Rightarrow> ('n MachineStore, create_exit) go" where
  "create_body env mreq stateDir m =
     (case setup_volume env (mr_StoragePath mreq) stateDir of
        Inl err \<Rightarrow> (Ret (Some err, False, False), m)
      | Inr (volumeLayer, volumes) \<Rightarrow>
          (if ms_lock m then (Blocked, m)
           else let m1 = m\<lparr>ms_lock := True\<rparr> in
             case setup_network env (uuid_NewUUID env) of
               Panic msg \<Rightarrow> (Panic msg, m1\<lparr>state_dirs := state_dirs m1 - {stateDir}\<rparr>)
             | Blocked \<Rightarrow> (Blocked, m1)
             | Ret (Inl err) \<Rightarrow> (Ret (Some err, True, False), m1)
             | Ret (Inr newIface) \<Rightarrow>
                 (case set_labels mreq volumeLayer m1 of
                    (refs, m2) \<Rightarrow>
                      launch_machine env mreq newIface
                        (new_machine_object env mreq stateDir refs volumes newIface) m2)))"

text \<open>The deferred function: it reads a field of \<open>machine\<close>, which a library may have set to nil.\<close>

definition create_cleanup :: "string \<Rightarrow> create_exit \<Rightarrow> ('n MachineStore, go_error option) go" where
  "create_cleanup stateDir ex m =
     (case ex of (res, errSet, isnil) \<Rightarrow>
        (if \<not> errSet then (Ret res, m)
         else if isnil then (Panic ''nil pointer dereference'', m)
         else (Ret res, m\<lparr>state_dirs := state_dirs m - {stateDir}\<rparr>)))"

definition createMachine :: "machine_env \<Rightarrow> MachineRequest \<Rightarrow> ('n MachineStore, go_error option) go" where
  "createMachine env mreq m =
     (let stateDir = path_Join [MachineDirectory, uuid_NewUUID env] in
      case os_MkdirAll env stateDir of
        Some err \<Rightarrow> (Ret (Some err), m)
      | None \<Rightarrow> go_bind (create_body env mreq stateDir) (create_cleanup stateDir)
                  (m\<lparr>state_dirs := insert stateDir (state_dirs m)\<rparr>))"

text \<open>
  \<open>CloneMachine\<close> passes the annotations of the machine for the labels of the clone too, as the
  source does.
\<close>

definition clone_request :: "'n MachineStore \<Rightarrow> Machine \<Rightarrow> MachineRequest" where
  "clone_request m machine =
     (let labels = map_heap m (mc_Labels machine) in
      \<lparr>mr_Service = go_lookup labels service_label, mr_Image = go_lookup labels image_label,
       mr_Namespace = go_lookup labels namespace_label, mr_Architecture = mc_Architecture machine,
       mr_Platform = mc_Platform machine, mr_Kernel = mc_Kernel machine,
       mr_KernelPath = mc_KernelPath machine,
       mr_StoragePath = go_lookup (map_heap m (mc_Annotations machine)) filesystem_annotation,
       mr_Annotations = Some (mc_Annotations machine), mr_Labels = Some (mc_Annotations machine)\<rparr>)"

definition CloneMachine ::
  "machine_env \<Rightarrow> range_of \<Rightarrow> string \<Rightarrow> ('n MachineStore, go_error option) go" where
  "CloneMachine env order_of service m =
     (case getFunctionMachine (order_of (machineInstanceMapv2 m)) service m of
        Inl notFoundErr \<Rightarrow> (Ret (Some notFoundErr), m)
      | Inr machine \<Rightarrow> createMachine env (clone_request m machine) m)"

definition function_request :: "FunctionMetaData \<Rightarrow> Target \<Rightarrow> MachineRequest" where
  "function_request function_md targ =
     (let req = md_FunctionDeployment function_md in
      \<lparr>mr_Service = fd_Service req, mr_Image = fd_Image req, mr_Namespace = fd_Namespace req,
       mr_Architecture = tg_Architecture targ, mr_Platform = tg_Platform targ,
       mr_Kernel = tg_Format targ @ ''://'' @ fd_Image req, mr_KernelPath = tg_Kernel targ,
       mr_StoragePath = path_Join [md_StorageDir function_md, ''unikraft/fs0''],
       mr_Annotations = fd_Annotations req, mr_Labels = fd_Labels req\<rparr>)"

definition NewMachine :: "machine_env \<Rightarrow> FunctionMetaData \<Rightarrow> ('n MachineStore, go_error option) go" where
  "NewMachine env function_md m =
     (case pack_target (md_Package function_md) of
        None \<Rightarrow> (Ret (Some (Errorf ''package does not convert to target'')), m)
      | Some targ \<Rightarrow> createMachine env (function_request function_md targ) m)"

text \<open>
  The goroutine of a new machine: it asks the watchdog until it answers, then registers the address.
  A request that cannot be built and one that fails are tried again alike, so the loop ends with the
  first answer, if there is one.
\<close>

partial_function (option) await_watchdog :: "(nat \<Rightarrow> bool) \<Rightarrow> nat \<Rightarrow> nat option" where
  "await_watchdog answers i = (if answers i then Some i else await_watchdog answers (Suc i))"

definition machine_ready ::
  "'n NetworkController \<Rightarrow> (nat \<Rightarrow> bool) \<Rightarrow> string \<times> IP \<Rightarrow> ('n MachineStore, unit) go" where
  "machine_ready nc answers waiting m =
     (if waiting \<in> set (pending m)
      then case await_watchdog answers 0 of
             None \<Rightarrow> (Blocked, m)
           | Some _ \<Rightarrow>
               go_bind (on_controller (AddServiceIP nc (fst waiting) (snd waiting))) (\<lambda>_. go_return ())
                 (m\<lparr>pending := remove1 waiting (pending m)\<rparr>)
      else (Ret (), m))"

section \<open>Scaling and health checks\<close>

text \<open>
  The goroutines of a scaling call. A goroutine that deletes a machine chooses one, marks it, has its
  address deregistered, and stops it; one that clones a machine chooses the source, reads its fields, and
  creates the clone. Between two steps of a goroutine come those of the others. A chosen machine is a
  pointer: it is read as it is at that moment. A goroutine that blocks for ever is \<open>Stuck\<close>.

  The calls of the network controller and the creation of a machine are one step each. The caddy
  controller locks itself during a call; the internal one does not, and what two of its calls do when
  their accesses to the maps mix is not modelled. The mutex of \<open>createMachine\<close> is held from the network setup to the created machine, and what comes before and
  after it touches only the directory and the entries of the new machine.
\<close>

datatype goroutine =
    Ready
  | Picked Machine
  | Marked Machine
  | Deregistered Machine NetIface
  | Requested MachineRequest
  | Stuck
  | Finished

definition current_object :: "'n MachineStore \<Rightarrow> Machine \<Rightarrow> Machine" where
  "current_object m mc = (case machineInstanceMapv2 m (mc_UID mc) of Some obj \<Rightarrow> obj | None \<Rightarrow> mc)"

definition choose_machine ::
  "range_of \<Rightarrow> string \<Rightarrow> ('n MachineStore, goroutine) go" where
  "choose_machine order_of service m =
     (case getFunctionMachine (order_of (machineInstanceMapv2 m)) service m of
        Inl notFoundErr \<Rightarrow> (Ret Finished, m)
      | Inr machine \<Rightarrow> (Ret (Picked machine), m))"

fun delete_step ::
  "'n NetworkController \<Rightarrow> machine_env \<Rightarrow> range_of \<Rightarrow> string \<Rightarrow> goroutine \<Rightarrow> ('n MachineStore, goroutine) go" where
  "delete_step nc env order_of service Ready = choose_machine order_of service"
| "delete_step nc env order_of service (Picked machine) =
     (\<lambda>m. let obj = current_object m machine in
       (Ret (Marked (obj\<lparr>mc_State := MachineStateUnknown\<rparr>)), mark_machine obj m))"
| "delete_step nc env order_of service (Marked machine) =
     (\<lambda>m. go_bind (deregister_machine nc env (current_object m machine)) (\<lambda>r. go_return (case r of
        Inl err \<Rightarrow> Finished
      | Inr iface \<Rightarrow> Deregistered machine iface)) m)"
| "delete_step nc env order_of service (Deregistered machine iface) =
     (\<lambda>m. go_bind (stop_machine env (current_object m machine) iface) (\<lambda>_. go_return Finished) m)"
| "delete_step nc env order_of service g = go_return g"

fun clone_step ::
  "machine_env \<Rightarrow> range_of \<Rightarrow> string \<Rightarrow> goroutine \<Rightarrow> ('n MachineStore, goroutine) go" where
  "clone_step env order_of service Ready = choose_machine order_of service"
| "clone_step env order_of service (Picked machine) =
     (\<lambda>m. (Ret (Requested (clone_request m (current_object m machine))), m))"
| "clone_step env order_of service (Requested mreq) =
     go_bind (createMachine env mreq) (\<lambda>_. go_return Finished)"
| "clone_step env order_of service g = go_return g"

text \<open>
  The goroutines along a schedule, which names the one that makes the next step. A panic of one ends
  the process.
\<close>

fun interleave ::
  "(nat \<Rightarrow> goroutine \<Rightarrow> ('s, goroutine) go) \<Rightarrow> nat list \<Rightarrow> goroutine list \<Rightarrow> ('s, goroutine list) go" where
  "interleave step [] gs m = (Ret gs, m)"
| "interleave step (i # sched) gs m =
     (if i < length gs
      then (case step i (gs ! i) m of
              (Ret g, m') \<Rightarrow> interleave step sched (gs[i := g]) m'
            | (Blocked, m') \<Rightarrow> interleave step sched (gs[i := Stuck]) m'
            | (Panic msg, m') \<Rightarrow> (Panic msg, m'))
      else interleave step sched gs m)"

text \<open>
  What is left to do after a schedule: no goroutine makes more than four steps. The wait group then
  waits for all of them, so it blocks when one is stuck.
\<close>

definition remaining_steps :: "nat \<Rightarrow> nat list" where
  "remaining_steps k = concat (map (replicate 4) [0..<k])"

definition run_goroutines ::
  "(nat \<Rightarrow> goroutine \<Rightarrow> ('s, goroutine) go) \<Rightarrow> nat list \<Rightarrow> nat \<Rightarrow> ('s, unit) go" where
  "run_goroutines step sched k m =
     (case interleave step (sched @ remaining_steps k) (replicate k Ready) m of
        (Ret gs, m') \<Rightarrow> (if Stuck \<in> set gs then Blocked else Ret (), m')
      | (Blocked, m') \<Rightarrow> (Blocked, m')
      | (Panic msg, m') \<Rightarrow> (Panic msg, m'))"

text \<open>
  \<open>ScaleMachinesTo\<close> under the schedule \<open>sched\<close>, after which its goroutines end one by one: \<open>envs i\<close>
  and \<open>orders i\<close> are what the \<open>i\<close>-th of them sees. The mutex of the health checks is held throughout.
\<close>

definition ScaleMachinesTo ::
  "'n NetworkController \<Rightarrow> (nat \<Rightarrow> machine_env) \<Rightarrow> (nat \<Rightarrow> range_of) \<Rightarrow> nat list \<Rightarrow> string list \<Rightarrow> string \<Rightarrow> 64 word \<Rightarrow>
   ('n MachineStore, go_error option) go" where
  "ScaleMachinesTo nc envs orders sched order service replicas m =
     (if healthChecklock m then (Blocked, m)
      else let currReplicas = GetReplicas order service m in
        go_bind
          (if currReplicas < replicas
           then run_goroutines (\<lambda>i. clone_step (envs i) (orders i) service) sched (unat (replicas - currReplicas))
           else if replicas < currReplicas
           then run_goroutines (\<lambda>i. delete_step nc (envs i) (orders i) service) sched (unat (currReplicas - replicas))
           else go_return ())
          (\<lambda>_ m'. (Ret None, m'\<lparr>healthChecklock := False\<rparr>)) (m\<lparr>healthChecklock := True\<rparr>))"

definition StopAllMachines ::
  "'n NetworkController \<Rightarrow> (nat \<Rightarrow> machine_env) \<Rightarrow> (nat \<Rightarrow> range_of) \<Rightarrow> nat list \<Rightarrow> string list \<Rightarrow> string \<Rightarrow>
   ('n MachineStore, go_error option) go" where
  "StopAllMachines nc envs orders sched order service =
     go_bind (ScaleMachinesTo nc envs orders sched order service 0) (\<lambda>err.
       case err of Some e \<Rightarrow> go_return (Some e) | None \<Rightarrow> go_return None)"

text \<open>
  One visit of the health check: the machine object is brought up to date in place, and destroyed
  when it does not run any more; the error of that is dropped.
\<close>

definition check_machine ::
  "'n NetworkController \<Rightarrow> machine_env \<Rightarrow> string \<Rightarrow> ('n MachineStore, unit) go" where
  "check_machine nc env key m =
     (if healthChecklock m then (Blocked, m)
      else case machineInstanceMapv2 m key of
             None \<Rightarrow> (Ret (), m)
           | Some machine \<Rightarrow>
               (if \<not> is_running machine then (Ret (), m)
                else case machine_Get env machine of
                       (obj, isnil, Some err) \<Rightarrow> (Ret (), update_object key obj m)
                     | (obj, isnil, None) \<Rightarrow>
                         (let m1 = update_object key obj m in
                          if isnil then (Panic ''nil pointer dereference'', m1)
                          else if is_running obj then (Ret (), m1)
                          else go_bind (destroyMachine nc env obj) (\<lambda>_. go_return ()) m1)))"

fun health_pass :: "'n NetworkController \<Rightarrow> machine_env \<Rightarrow> string list \<Rightarrow> ('n MachineStore, unit) go" where
  "health_pass nc env [] m = (Ret (), m)"
| "health_pass nc env (key # keys) m = go_bind (check_machine nc env key) (\<lambda>_. health_pass nc env keys) m"

text \<open>The loop until the context is cancelled, here after a given number of passes.\<close>

fun health_loop :: "'n NetworkController \<Rightarrow> machine_env list \<Rightarrow> range_of \<Rightarrow> ('n MachineStore, go_error option) go" where
  "health_loop nc [] order_of m = (Ret None, m)"
| "health_loop nc (env # envs) order_of m =
     go_bind (health_pass nc env (order_of (machineInstanceMapv2 m))) (\<lambda>_. health_loop nc envs order_of) m"

definition ms_RunHealthChecks ::
  "'n NetworkController \<Rightarrow> machine_env \<Rightarrow> machine_env list \<Rightarrow> range_of \<Rightarrow> ('n MachineStore, go_error option) go" where
  "ms_RunHealthChecks nc env passes order_of m =
     (case machine_service env of
        Some err \<Rightarrow> (Ret (Some err), m)
      | None \<Rightarrow> health_loop nc passes order_of m)"

section \<open>Replicas\<close>

definition replica_set :: "'n MachineStore \<Rightarrow> string \<Rightarrow> string set" where
  "replica_set m service = {key. serves m service key}"

lemma replica_set_dom: "replica_set m service \<subseteq> dom (machineInstanceMapv2 m)"
  by (auto simp: replica_set_def serves_def split: option.splits)

lemma GetReplicas_card:
  assumes "range_order (machineInstanceMapv2 m) ks"
  shows "GetReplicas ks service m = of_nat (card (replica_set m service))"
proof -
  have "{k \<in> dom (machineInstanceMapv2 m). serves m service k} = replica_set m service"
    using replica_set_dom[of m service] by (auto simp: replica_set_def)
  then show ?thesis by (simp add: GetReplicas_def range_order_count[OF assms])
qed

lemma getFunctionMachine_cases:
  assumes ord: "range_order (machineInstanceMapv2 m) ks"
  obtains (missing) "replica_set m service = {}"
      and "getFunctionMachine ks service m = Inl (Errorf (''function '' @ service @ '' not found''))"
  | (found) key machine where "key \<in> replica_set m service"
      and "machineInstanceMapv2 m key = Some machine" and "is_running machine"
      and "service_of m machine = service" and "getFunctionMachine ks service m = Inr machine"
proof (cases "find (serves m service) ks")
  case None
  have "replica_set m service = {}"
    using None range_orderD(2)[OF ord] subsetD[OF replica_set_dom[of m service]]
    by (fastforce simp: find_None_iff replica_set_def)
  with None show ?thesis by (intro missing) (simp_all add: getFunctionMachine_def)
next
  case (Some key)
  then have key: "serves m service key" by (auto simp: find_Some_iff)
  then obtain machine where mc: "machineInstanceMapv2 m key = Some machine" "is_running machine"
      "service_of m machine = service"
    by (auto simp: serves_def split: option.splits)
  show ?thesis
    by (rule found[of key machine])
      (use key mc Some in \<open>simp_all add: getFunctionMachine_def replica_set_def\<close>)
qed

section \<open>What a destroyed machine leaves\<close>

lemma stop_machine_outcome:
  assumes "stop_machine env machine iface m = (r, m')"
  defines "obj \<equiv> fst (machine_Stop env machine)"
  shows "r \<noteq> Blocked \<and> (m' = update_object (mc_UID machine) obj m \<or>
    m' = forget_machine (mc_UID machine) (update_object (mc_UID machine) obj m) \<or>
    m' = (update_object (mc_UID machine) obj m)\<lparr>machineInstanceMapv2 :=
      (machineInstanceMapv2 (update_object (mc_UID machine) obj m))(mc_UID machine \<mapsto> obj)\<rparr>)"
proof -
  obtain o' isnil e where st: "machine_Stop env machine = (o', isnil, e)" by (cases "machine_Stop env machine")
  then have obj: "obj = o'" by (simp add: obj_def)
  show ?thesis
  proof (cases "length (if_IfName iface) < 15")
    case True
    with assms(1) st obj show ?thesis by (simp add: stop_machine_def Let_def) blast
  next
    case long: False
    show ?thesis
    proof (cases isnil)
      case False
      with long assms(1) st obj show ?thesis by (simp add: stop_machine_def Let_def) blast
    next
      case True
      with long assms(1) st obj show ?thesis
        by (cases "if LinkByName env (take 15 (if_IfName iface)) = None then remove_link env (if_IfName iface) else None")
          (simp_all add: stop_machine_def Let_def split: if_splits, blast+)
    qed
  qed
qed

lemma update_object_fields [simp]:
  "ms_lock (update_object key obj m) = ms_lock m"
  "healthChecklock (update_object key obj m) = healthChecklock m"
  "map_heap (update_object key obj m) = map_heap m"
  "heap_next (update_object key obj m) = heap_next m"
  "state_dirs (update_object key obj m) = state_dirs m"
  "pending (update_object key obj m) = pending m"
  "networkController (update_object key obj m) = networkController m"
  "machineNetworkMapv2 (update_object key obj m) = machineNetworkMapv2 m"
  "dom (machineInstanceMapv2 (update_object key obj m)) = dom (machineInstanceMapv2 m)"
  "k \<noteq> key \<Longrightarrow> machineInstanceMapv2 (update_object key obj m) k = machineInstanceMapv2 m k"
  "machineInstanceMapv2 m key = Some mc \<Longrightarrow> machineInstanceMapv2 (update_object key obj m) key = Some obj"
  "machineInstanceMapv2 m key = None \<Longrightarrow> machineInstanceMapv2 (update_object key obj m) key = None"
  by (auto simp: update_object_def split: option.splits)

lemma forget_machine_fields [simp]:
  "ms_lock (forget_machine key m) = ms_lock m"
  "healthChecklock (forget_machine key m) = healthChecklock m"
  "map_heap (forget_machine key m) = map_heap m"
  "heap_next (forget_machine key m) = heap_next m"
  "state_dirs (forget_machine key m) = state_dirs m"
  "pending (forget_machine key m) = pending m"
  "networkController (forget_machine key m) = networkController m"
  "machineInstanceMapv2 (forget_machine key m) = (machineInstanceMapv2 m)(key := None)"
  "machineNetworkMapv2 (forget_machine key m) = (machineNetworkMapv2 m)(key := None)"
  by (simp_all add: forget_machine_def)

lemma stop_machine_frame:
  assumes "stop_machine env machine iface m = (r, m')" and "mc_UID machine = mId"
  shows "ms_lock m' = ms_lock m \<and> healthChecklock m' = healthChecklock m \<and> map_heap m' = map_heap m \<and>
    heap_next m' = heap_next m \<and> state_dirs m' = state_dirs m \<and> pending m' = pending m \<and>
    networkController m' = networkController m \<and> r \<noteq> Blocked \<and>
    (\<forall>k. k \<noteq> mId \<longrightarrow> machineInstanceMapv2 m' k = machineInstanceMapv2 m k \<and>
       machineNetworkMapv2 m' k = machineNetworkMapv2 m k) \<and>
    (machineInstanceMapv2 m' mId = machineInstanceMapv2 m mId \<or> machineInstanceMapv2 m' mId = None \<or>
     machineInstanceMapv2 m' mId = Some (fst (machine_Stop env machine))) \<and>
    (machineInstanceMapv2 m mId \<noteq> None \<longrightarrow> dom (machineNetworkMapv2 m) = dom (machineInstanceMapv2 m) \<longrightarrow>
     dom (machineNetworkMapv2 m') = dom (machineInstanceMapv2 m'))"
proof -
  let ?u = "update_object mId (fst (machine_Stop env machine)) m"
  from stop_machine_outcome[OF assms(1)] assms(2)
  have nb: "r \<noteq> Blocked" and "m' = ?u \<or> m' = forget_machine mId ?u \<or>
      m' = ?u\<lparr>machineInstanceMapv2 := (machineInstanceMapv2 ?u)(mId \<mapsto> fst (machine_Stop env machine))\<rparr>"
    by simp_all
  then consider (upd) "m' = ?u" | (forget) "m' = forget_machine mId ?u"
    | (store) "m' = ?u\<lparr>machineInstanceMapv2 := (machineInstanceMapv2 ?u)(mId \<mapsto> fst (machine_Stop env machine))\<rparr>"
    by blast
  then show ?thesis
  proof cases
    case upd
    with nb show ?thesis by (cases "machineInstanceMapv2 m mId") simp_all
  next
    case forget
    with nb show ?thesis by (cases "machineInstanceMapv2 m mId") simp_all
  next
    case store
    with nb show ?thesis by (cases "machineInstanceMapv2 m mId") (auto simp: insert_absorb domI)
  qed
qed

lemma machine_ext:
  assumes "on_controller call m = (r, m')"
  shows "\<exists>ns. call (networkController m) = (r, ns) \<and> m' = m\<lparr>networkController := ns\<rparr>"
  using assms by (auto simp: on_controller_def split: prod.splits)

lemma destroyMachine_cases:
  assumes "destroyMachine nc env machine m = (r, m')" and "mc_UID machine = mId"
  obtains (refused) e where "r = Ret (Some e)" and "m' = m"
  | (deregistered) iface r' ns where "machineNetworkMapv2 m mId = Some iface"
      and "DeleteServiceIP nc (service_of m machine) (if_IP iface) (networkController m) = (r', ns)"
      and "r' \<noteq> Ret None" and "r = r'" and "m' = m\<lparr>networkController := ns\<rparr>"
  | (stopped) iface ns where "machineNetworkMapv2 m mId = Some iface"
      and "DeleteServiceIP nc (service_of m machine) (if_IP iface) (networkController m) = (Ret None, ns)"
      and "stop_machine env machine iface (m\<lparr>networkController := ns\<rparr>) = (r, m')"
proof (cases "machine_service env")
  case (Some e)
  with assms show ?thesis by (intro refused[of e]) (simp_all add: destroyMachine_def)
next
  case svc: None
  show ?thesis
  proof (cases "machineNetworkMapv2 m mId")
    case None
    with svc assms show ?thesis
      by (intro refused[of "Errorf (''network interface for '' @ mId @ '' not found'')"])
        (simp_all add: destroyMachine_def)
  next
    case (Some iface)
    obtain r' ns where call: "DeleteServiceIP nc (service_of m machine) (if_IP iface) (networkController m) = (r', ns)"
      by fastforce
    then have oc: "on_controller (DeleteServiceIP nc (service_of m machine) (if_IP iface)) m =
        (r', m\<lparr>networkController := ns\<rparr>)"
      by (simp add: on_controller_def)
    show ?thesis
    proof (cases "r' = Ret None")
      case True
      with assms svc Some oc call show ?thesis by (intro stopped[of iface ns]) (simp_all add: destroyMachine_def)
    next
      case False
      with assms svc Some oc call show ?thesis
        by (intro deregistered[of iface r' ns])
          (auto simp: destroyMachine_def go_bind_def go_return_def split: outcome.splits option.splits)
    qed
  qed
qed

lemma destroyMachine_frame:
  assumes "destroyMachine nc env machine m = (r, m')" and "mc_UID machine = mId"
  shows "ms_lock m' = ms_lock m \<and> healthChecklock m' = healthChecklock m \<and> map_heap m' = map_heap m \<and>
    heap_next m' = heap_next m \<and> state_dirs m' = state_dirs m \<and> pending m' = pending m \<and>
    (\<forall>k. k \<noteq> mId \<longrightarrow> machineInstanceMapv2 m' k = machineInstanceMapv2 m k \<and>
       machineNetworkMapv2 m' k = machineNetworkMapv2 m k) \<and>
    (machineInstanceMapv2 m' mId = machineInstanceMapv2 m mId \<or> machineInstanceMapv2 m' mId = None \<or>
     machineInstanceMapv2 m' mId = Some (fst (machine_Stop env machine))) \<and>
    (machineInstanceMapv2 m mId \<noteq> None \<longrightarrow> dom (machineNetworkMapv2 m) = dom (machineInstanceMapv2 m) \<longrightarrow>
     dom (machineNetworkMapv2 m') = dom (machineInstanceMapv2 m'))"
  using assms(1,2)
proof (cases rule: destroyMachine_cases)
  case (refused e)
  then show ?thesis by simp
next
  case (deregistered iface r' ns)
  then show ?thesis by simp
next
  case (stopped iface ns)
  from stop_machine_frame[OF stopped(3) assms(2)] show ?thesis by simp
qed

text \<open>
  What is relied on of the machine service: identity, maps and networks of a machine object stay, and
  stopping a machine that does not run does not make it run.
\<close>

definition keeps_identity :: "(Machine \<Rightarrow> Machine \<times> bool \<times> go_error option) \<Rightarrow> bool" where
  "keeps_identity f \<longleftrightarrow> (\<forall>mc. mc_UID (fst (f mc)) = mc_UID mc \<and> mc_Labels (fst (f mc)) = mc_Labels mc \<and>
     mc_Annotations (fst (f mc)) = mc_Annotations mc \<and> mc_StateDir (fst (f mc)) = mc_StateDir mc \<and>
     mc_Networks (fst (f mc)) = mc_Networks mc)"

definition service_ok :: "machine_env \<Rightarrow> bool" where
  "service_ok env \<longleftrightarrow> keeps_identity (machine_Create env) \<and> keeps_identity (machine_Start env) \<and>
     keeps_identity (machine_Stop env) \<and> keeps_identity (machine_Get env) \<and>
     (\<forall>mc. \<not> is_running mc \<longrightarrow> \<not> is_running (fst (machine_Stop env mc)))"

lemma service_okD:
  assumes "service_ok env"
  shows "mc_UID (fst (machine_Create env mc)) = mc_UID mc" "mc_UID (fst (machine_Start env mc)) = mc_UID mc"
    "mc_UID (fst (machine_Stop env mc)) = mc_UID mc" "mc_UID (fst (machine_Get env mc)) = mc_UID mc"
    "mc_Labels (fst (machine_Create env mc)) = mc_Labels mc" "mc_Labels (fst (machine_Start env mc)) = mc_Labels mc"
    "mc_Labels (fst (machine_Stop env mc)) = mc_Labels mc" "mc_Labels (fst (machine_Get env mc)) = mc_Labels mc"
    "mc_Annotations (fst (machine_Create env mc)) = mc_Annotations mc"
    "mc_Annotations (fst (machine_Start env mc)) = mc_Annotations mc"
    "mc_StateDir (fst (machine_Create env mc)) = mc_StateDir mc"
    "mc_StateDir (fst (machine_Start env mc)) = mc_StateDir mc"
    "\<not> is_running mc \<Longrightarrow> \<not> is_running (fst (machine_Stop env mc))"
    "mc_Networks (fst (machine_Create env mc)) = mc_Networks mc"
    "mc_Networks (fst (machine_Start env mc)) = mc_Networks mc"
  using assms by (simp_all add: service_ok_def keeps_identity_def)

text \<open>A machine is stored under its UID, and has an interface exactly while it is stored.\<close>

definition keyed :: "'n MachineStore \<Rightarrow> bool" where
  "keyed m \<longleftrightarrow> (\<forall>key mc. machineInstanceMapv2 m key = Some mc \<longrightarrow> mc_UID mc = key)"

lemma keyedD: "keyed m \<Longrightarrow> machineInstanceMapv2 m key = Some mc \<Longrightarrow> mc_UID mc = key"
  by (simp add: keyed_def)

lemma service_of_cong: "map_heap m' = map_heap m \<Longrightarrow> mc_Labels mc' = mc_Labels mc \<Longrightarrow> service_of m' mc' = service_of m mc"
  by (simp add: service_of_def)

lemma mark_machine_fields [simp]:
  "ms_lock (mark_machine mc m) = ms_lock m"
  "healthChecklock (mark_machine mc m) = healthChecklock m"
  "map_heap (mark_machine mc m) = map_heap m"
  "heap_next (mark_machine mc m) = heap_next m"
  "state_dirs (mark_machine mc m) = state_dirs m"
  "pending (mark_machine mc m) = pending m"
  "networkController (mark_machine mc m) = networkController m"
  "machineNetworkMapv2 (mark_machine mc m) = machineNetworkMapv2 m"
  "machineInstanceMapv2 (mark_machine mc m) =
     (machineInstanceMapv2 m)(mc_UID mc \<mapsto> mc\<lparr>mc_State := MachineStateUnknown\<rparr>)"
  by (simp_all add: mark_machine_def)

lemma unknown_not_running [simp]: "\<not> is_running (mc\<lparr>mc_State := MachineStateUnknown\<rparr>)"
  by (simp add: is_running_def)

lemma mark_keyed: "keyed m \<Longrightarrow> keyed (mark_machine mc m)"
  by (simp add: keyed_def)

lemma serves_cong:
  "machineInstanceMapv2 m' key = machineInstanceMapv2 m key \<Longrightarrow> map_heap m' = map_heap m \<Longrightarrow>
   serves m' service key = serves m service key"
  by (simp add: serves_def service_of_def split: option.split)

lemma mark_replica_set: "replica_set (mark_machine mc m) service = replica_set m service - {mc_UID mc}"
proof (rule set_eqI)
  fix key
  show "key \<in> replica_set (mark_machine mc m) service \<longleftrightarrow> key \<in> replica_set m service - {mc_UID mc}"
  proof (cases "key = mc_UID mc")
    case True
    then show ?thesis by (simp add: replica_set_def serves_def)
  next
    case False
    then have "serves (mark_machine mc m) service key = serves m service key"
      by (intro serves_cong) simp_all
    with False show ?thesis by (simp add: replica_set_def)
  qed
qed

text \<open>A machine that does not run leaves the map or stays there without running.\<close>

lemma stopped_replica_set:
  assumes others: "\<And>k. k \<noteq> mId \<Longrightarrow> machineInstanceMapv2 m' k = machineInstanceMapv2 m k"
    and own: "machineInstanceMapv2 m' mId = machineInstanceMapv2 m mId \<or> machineInstanceMapv2 m' mId = None \<or>
      machineInstanceMapv2 m' mId = Some obj"
    and heap: "map_heap m' = map_heap m" and stopped: "\<not> is_running obj" and gone: "mId \<notin> replica_set m service"
  shows "replica_set m' service = replica_set m service"
proof (rule set_eqI)
  fix key
  show "key \<in> replica_set m' service \<longleftrightarrow> key \<in> replica_set m service"
  proof (cases "key = mId")
    case True
    with own gone heap stopped show ?thesis
      by (auto simp: replica_set_def serves_def service_of_def split: option.splits)
  next
    case False
    then have "serves m' service key = serves m service key" by (intro serves_cong others heap)
    then show ?thesis by (simp add: replica_set_def)
  qed
qed

lemma stopped_keyed:
  assumes uid: "mc_UID obj = mId"
    and others: "\<And>k. k \<noteq> mId \<Longrightarrow> machineInstanceMapv2 m' k = machineInstanceMapv2 m k"
    and own: "machineInstanceMapv2 m' mId = machineInstanceMapv2 m mId \<or> machineInstanceMapv2 m' mId = None \<or>
      machineInstanceMapv2 m' mId = Some obj"
    and "keyed m"
  shows "keyed m'"
  unfolding keyed_def
proof (intro allI impI)
  fix key x
  assume x: "machineInstanceMapv2 m' key = Some x"
  show "mc_UID x = key"
  proof (cases "key = mId")
    case True
    with own x uid keyedD[OF assms(4)] show ?thesis by auto
  next
    case False
    with others x keyedD[OF assms(4)] show ?thesis by simp
  qed
qed

lemma destroy_replica_set:
  assumes d: "destroyMachine nc env mc m = (r, m')" and ok: "service_ok env"
    and stopped: "\<not> is_running mc" and gone: "mc_UID mc \<notin> replica_set m service"
  shows "replica_set m' service = replica_set m service"
  using destroyMachine_frame[OF d refl] service_okD(13)[OF ok stopped] gone
  by (intro stopped_replica_set[where mId = "mc_UID mc" and obj = "fst (machine_Stop env mc)"]) simp_all

lemma destroy_keyed:
  assumes "destroyMachine nc env mc m = (r, m')" and ok: "service_ok env" and "keyed m"
  shows "keyed m'"
proof (rule stopped_keyed[where mId = "mc_UID mc" and obj = "fst (machine_Stop env mc)" and m = m])
  show "mc_UID (fst (machine_Stop env mc)) = mc_UID mc" by (rule service_okD(3)[OF ok])
qed (use destroyMachine_frame[OF assms(1) refl] assms(3) in blast)+

section \<open>Machines to run the operations on\<close>

text \<open>Two machines of a service \<open>f\<close>, and libraries that do what they are asked.\<close>

definition sample_machine :: "string \<Rightarrow> Machine" where
  "sample_machine uid = \<lparr>mc_UID = uid, mc_Name = ''vm'', mc_Labels = 0, mc_Annotations = 1,
     mc_Architecture = ''x86_64'', mc_Platform = ''qemu'', mc_Kernel = ''oci://app:v1'', mc_Volumes = [],
     mc_Networks = [], mc_KernelPath = ''kernel'', mc_StateDir = path_Join [MachineDirectory, uid],
     mc_State = MachineStateRunning\<rparr>"

definition sample_iface :: "string \<Rightarrow> IP \<Rightarrow> NetIface" where
  "sample_iface uid ip = \<lparr>if_UID = uid, if_IfName = ''openfaas0@if'' @ uid, if_IP = ip\<rparr>"

definition sample_machines :: "'n \<Rightarrow> 'n MachineStore" where
  "sample_machines ns = \<lparr>ms_lock = False, healthChecklock = False,
     machineInstanceMapv2 = [''uid1'' \<mapsto> sample_machine ''uid1'', ''uid2'' \<mapsto> sample_machine ''uid2''],
     machineNetworkMapv2 = [''uid1'' \<mapsto> sample_iface ''uid1'' ''10.0.0.1'', ''uid2'' \<mapsto> sample_iface ''uid2'' ''10.0.0.2''],
     networkController = ns,
     map_heap = (\<lambda>r. if r = 0 then [''ukfaas.io/service'' \<mapsto> ''f'', ''tier'' \<mapsto> ''gold''] else Map.empty),
     heap_next = 2, state_dirs = {}, pending = []\<rparr>"

definition sample_menv :: machine_env where
  "sample_menv = \<lparr>uuid_NewUUID = ''uid3'', os_MkdirAll = (\<lambda>_. None), os_Stat = (\<lambda>_. Some (LibError ''absent'')),
     cp_rT = (\<lambda>_ _. None), NewVolumeService = None, volume_Create = Inr, NewNetworkService = None,
     network_Get = (\<lambda>_. Inr []), network_Update = (\<lambda>xs. Inr (map (\<lambda>x. x\<lparr>if_IP := ''10.0.0.3''\<rparr>) xs)),
     NewRandomMachineName = ''vm3'', mp_Detect = (''qemu'', None), Strategies = (\<lambda>_. True),
     NewMachineV1alpha1 = (\<lambda>_. None),
     machine_Create = (\<lambda>mc. (mc\<lparr>mc_State := MachineStateCreated\<rparr>, False, None)),
     machine_Start = (\<lambda>mc. (mc\<lparr>mc_State := MachineStateRunning\<rparr>, False, None)),
     machine_Stop = (\<lambda>mc. (mc\<lparr>mc_State := MachineStateExited\<rparr>, False, None)),
     machine_Get = (\<lambda>mc. (mc, False, None)),
     LinkByName = (\<lambda>_. None), LinkSetDown = (\<lambda>_. None), LinkDel = (\<lambda>_. None)\<rparr>"

definition sample_nc :: "unit NetworkController" where
  "sample_nc = \<lparr>AddServiceIP = (\<lambda>_ _. go_return None), DeleteServiceIP = (\<lambda>_ _. go_return None),
     DeleteService = (\<lambda>_. go_return None), ResolveServiceEndpoint = (\<lambda>_. go_return (Inr '''')),
     AvailableIPs = (\<lambda>_ _. Inr 0)\<rparr>"

lemma sample_menv_ok [simp]: "service_ok sample_menv"
  by (simp add: service_ok_def keeps_identity_def sample_menv_def is_running_def)

lemma sample_machines_keyed [simp]: "keyed (sample_machines ns)"
  by (simp add: keyed_def sample_machines_def sample_machine_def)

lemma sample_machines_dom [simp]: "dom (machineInstanceMapv2 (sample_machines ns)) = {''uid1'', ''uid2''}"
  by (auto simp: sample_machines_def split: if_splits)

lemma sample_replicas [simp]: "replica_set (sample_machines ns) ''f'' = {''uid1'', ''uid2''}"
  by (auto simp: replica_set_def serves_def sample_machines_def sample_machine_def service_of_def
      go_lookup_def service_label_def is_running_def split: if_splits)

lemma sample_order: "range_order (machineInstanceMapv2 (sample_machines ns)) [''uid1'', ''uid2'']"
  by (simp add: range_order_def)

lemma sample_pick: "getFunctionMachine [''uid1'', ''uid2''] ''f'' (sample_machines ns) = Inr (sample_machine ''uid1'')"
  by (simp add: getFunctionMachine_def serves_def sample_machines_def sample_machine_def service_of_def
      go_lookup_def service_label_def is_running_def)

end
