(* ===== verification/MachineCreation.thy ===== *)
theory MachineCreation
  imports MachineStore
begin

text \<open>
  Creating and cloning machines: what a creation leaves when every library call succeeds, what the
  failures leave behind (the mutex, the state directory), and the maps that clones share.
\<close>

section \<open>Labels and annotations\<close>

lemma map_or_new_cases:
  obtains (given) r where "p = Some r" and "map_or_new p m = (r, m)"
  | (fresh) "p = None" and "map_or_new p m = (heap_next m, m\<lparr>map_heap := (map_heap m)(heap_next m := Map.empty),
      heap_next := Suc (heap_next m)\<rparr>)"
  by (cases p) (simp_all add: map_or_new_def)

lemma map_or_new_frame:
  assumes "map_or_new p m = (r, m')"
  shows "ms_lock m' = ms_lock m \<and> healthChecklock m' = healthChecklock m \<and>
    machineInstanceMapv2 m' = machineInstanceMapv2 m \<and> machineNetworkMapv2 m' = machineNetworkMapv2 m \<and>
    networkController m' = networkController m \<and> state_dirs m' = state_dirs m \<and> pending m' = pending m \<and>
    (\<forall>q. q < heap_next m \<longrightarrow> map_heap m' q = map_heap m q) \<and> heap_next m \<le> heap_next m'"
  using assms by (cases p) (auto simp: map_or_new_def)

lemma set_entry_fields [simp]:
  "ms_lock (set_entry r k v m) = ms_lock m"
  "healthChecklock (set_entry r k v m) = healthChecklock m"
  "machineInstanceMapv2 (set_entry r k v m) = machineInstanceMapv2 m"
  "machineNetworkMapv2 (set_entry r k v m) = machineNetworkMapv2 m"
  "networkController (set_entry r k v m) = networkController m"
  "heap_next (set_entry r k v m) = heap_next m"
  "state_dirs (set_entry r k v m) = state_dirs m"
  "pending (set_entry r k v m) = pending m"
  "map_heap (set_entry r k v m) = (map_heap m)(r := (map_heap m r)(k \<mapsto> v))"
  by (simp_all add: set_entry_def)

lemma set_labels_frame:
  assumes "set_labels mreq layer m = (refs, m')"
  shows "ms_lock m' = ms_lock m \<and> healthChecklock m' = healthChecklock m \<and>
    machineInstanceMapv2 m' = machineInstanceMapv2 m \<and> machineNetworkMapv2 m' = machineNetworkMapv2 m \<and>
    networkController m' = networkController m \<and> state_dirs m' = state_dirs m \<and> pending m' = pending m"
proof -
  obtain a m1 where a: "map_or_new (mr_Annotations mreq) m = (a, m1)" by fastforce
  obtain l m2 where l: "map_or_new (mr_Labels mreq) m1 = (l, m2)" by fastforce
  have m': "m' = set_entry a filesystem_annotation layer (set_entry l namespace_label (mr_Namespace mreq)
      (set_entry l image_label (mr_Image mreq) (set_entry l service_label (mr_Service mreq) m2)))"
    using assms by (auto simp: set_labels_def a l)
  show ?thesis unfolding m' using map_or_new_frame[OF a] map_or_new_frame[OF l] by simp
qed

lemma set_labels_entries:
  assumes "set_labels mreq layer m = ((l, a), m')"
  shows "map_heap m' l service_label = Some (mr_Service mreq)"
    and "map_heap m' l image_label = Some (mr_Image mreq)"
    and "map_heap m' l namespace_label = Some (mr_Namespace mreq)"
    and "map_heap m' a filesystem_annotation = Some layer"
proof -
  obtain a' m1 where a: "map_or_new (mr_Annotations mreq) m = (a', m1)" by fastforce
  obtain l' m2 where l: "map_or_new (mr_Labels mreq) m1 = (l', m2)" by fastforce
  have m': "m' = set_entry a filesystem_annotation layer (set_entry l namespace_label (mr_Namespace mreq)
      (set_entry l image_label (mr_Image mreq) (set_entry l service_label (mr_Service mreq) m2)))"
    using assms by (auto simp: set_labels_def a l)
  show "map_heap m' l service_label = Some (mr_Service mreq)"
    "map_heap m' l image_label = Some (mr_Image mreq)"
    "map_heap m' l namespace_label = Some (mr_Namespace mreq)"
    "map_heap m' a filesystem_annotation = Some layer"
    unfolding m' by simp_all
qed

text \<open>With both pointers given, as in a clone, only the maps they point to are written.\<close>

lemma set_labels_given:
  assumes "mr_Annotations mreq = Some a" and "mr_Labels mreq = Some l"
  shows "set_labels mreq layer m = ((l, a), set_entry a filesystem_annotation layer
    (set_entry l namespace_label (mr_Namespace mreq) (set_entry l image_label (mr_Image mreq)
      (set_entry l service_label (mr_Service mreq) m))))"
  using assms by (simp add: set_labels_def map_or_new_def)

section \<open>A creation that succeeds\<close>

definition state_dir :: "machine_env \<Rightarrow> string" where
  "state_dir env = path_Join [MachineDirectory, uuid_NewUUID env]"

text \<open>Every library call of a creation succeeds.\<close>

definition calls_succeed :: "machine_env \<Rightarrow> MachineRequest \<Rightarrow> bool" where
  "calls_succeed env mreq \<longleftrightarrow>
     os_MkdirAll env (state_dir env) = None \<and>
     (\<exists>v. setup_volume env (mr_StoragePath mreq) (state_dir env) = Inr v) \<and>
     (\<exists>i. setup_network env (uuid_NewUUID env) = Ret (Inr i)) \<and>
     Strategies env (fst (mp_Detect env)) \<and> NewMachineV1alpha1 env (fst (mp_Detect env)) = None \<and>
     (\<forall>mc. snd (machine_Create env mc) = (False, None) \<and> snd (machine_Start env mc) = (False, None))"

lemma createMachine_runs:
  assumes ok: "calls_succeed env mreq" and keeps: "service_ok env" and free: "\<not> ms_lock m"
  obtains v vols iface refs m2 mc
  where "setup_volume env (mr_StoragePath mreq) (state_dir env) = Inr (v, vols)"
    and "setup_network env (uuid_NewUUID env) = Ret (Inr iface)"
    and "set_labels mreq v (m\<lparr>state_dirs := insert (state_dir env) (state_dirs m), ms_lock := True\<rparr>) = (refs, m2)"
    and "mc = fst (machine_Start env (fst (machine_Create env
           (new_machine_object env mreq (state_dir env) refs vols iface))))"
    and "mc_UID mc = uuid_NewUUID env" and "mc_Labels mc = fst refs" and "mc_Annotations mc = snd refs"
    and "mc_StateDir mc = state_dir env"
    and "createMachine env mreq m = (Ret None, m2\<lparr>ms_lock := False,
           pending := pending m2 @ [(mr_Service mreq, if_IP iface)],
           machineInstanceMapv2 := (machineInstanceMapv2 m2)(uuid_NewUUID env \<mapsto> mc),
           machineNetworkMapv2 := (machineNetworkMapv2 m2)(uuid_NewUUID env \<mapsto> iface)\<rparr>)"
proof -
  from ok obtain v vols iface where v: "setup_volume env (mr_StoragePath mreq) (state_dir env) = Inr (v, vols)"
    and iface: "setup_network env (uuid_NewUUID env) = Ret (Inr iface)"
    by (auto simp: calls_succeed_def)
  let ?m0 = "m\<lparr>state_dirs := insert (state_dir env) (state_dirs m), ms_lock := True\<rparr>"
  obtain refs m2 where refs: "set_labels mreq v ?m0 = (refs, m2)" by fastforce
  let ?obj = "new_machine_object env mreq (state_dir env) refs vols iface"
  obtain created where c: "machine_Create env ?obj = (created, False, None)"
    using ok by (cases "machine_Create env ?obj") (force simp: calls_succeed_def dest: spec[of _ ?obj])
  obtain mc where s: "machine_Start env created = (mc, False, None)"
    using ok by (cases "machine_Start env created") (force simp: calls_succeed_def dest: spec[of _ created])
  have uid: "mc_UID mc = uuid_NewUUID env" "mc_Labels mc = fst refs" "mc_Annotations mc = snd refs"
    "mc_StateDir mc = state_dir env" "mc_Networks created = [[iface]]"
  proof -
    have obj: "mc_UID ?obj = uuid_NewUUID env" "mc_Labels ?obj = fst refs" "mc_Annotations ?obj = snd refs"
      "mc_StateDir ?obj = state_dir env" "mc_Networks ?obj = [[iface]]"
      by (simp_all add: new_machine_object_def)
    note k = service_okD[OF keeps, of ?obj, unfolded c fst_conv obj] service_okD[OF keeps, of created, unfolded s fst_conv]
    show "mc_UID mc = uuid_NewUUID env" "mc_Labels mc = fst refs" "mc_Annotations mc = snd refs"
      "mc_StateDir mc = state_dir env" "mc_Networks created = [[iface]]"
      by (simp_all only: k)
  qed
  have "start_machine env mreq iface ?obj m2 = (Ret (None, False, False), m2\<lparr>ms_lock := False,
      pending := pending m2 @ [(mr_Service mreq, if_IP iface)],
      machineInstanceMapv2 := (machineInstanceMapv2 m2)(uuid_NewUUID env \<mapsto> mc),
      machineNetworkMapv2 := (machineNetworkMapv2 m2)(uuid_NewUUID env \<mapsto> iface)\<rparr>)"
    by (simp add: start_machine_def c s uid Let_def)
  then have "launch_machine env mreq iface ?obj m2 = \<dots>"
    using ok by (cases "mp_Detect env") (simp add: launch_machine_def calls_succeed_def)
  then have body: "create_body env mreq (state_dir env) (m\<lparr>state_dirs := insert (state_dir env) (state_dirs m)\<rparr>) = \<dots>"
    using free v iface refs by (simp add: create_body_def Let_def)
  have "createMachine env mreq m = (Ret None, m2\<lparr>ms_lock := False,
      pending := pending m2 @ [(mr_Service mreq, if_IP iface)],
      machineInstanceMapv2 := (machineInstanceMapv2 m2)(uuid_NewUUID env \<mapsto> mc),
      machineNetworkMapv2 := (machineNetworkMapv2 m2)(uuid_NewUUID env \<mapsto> iface)\<rparr>)"
    using ok unfolding createMachine_def Let_def state_dir_def[symmetric]
    by (simp add: body create_cleanup_def calls_succeed_def)
  from that[OF v iface refs _ uid(1-4) this] c s show ?thesis by simp
qed

text \<open>What such a creation leaves in the store.\<close>

lemma createMachine_success:
  assumes "calls_succeed env mreq" and "service_ok env" and "\<not> ms_lock m"
  obtains m' mc iface where "createMachine env mreq m = (Ret None, m')"
    and "setup_network env (uuid_NewUUID env) = Ret (Inr iface)"
    and "machineInstanceMapv2 m' = (machineInstanceMapv2 m)(uuid_NewUUID env \<mapsto> mc)"
    and "machineNetworkMapv2 m' = (machineNetworkMapv2 m)(uuid_NewUUID env \<mapsto> iface)"
    and "mc_UID mc = uuid_NewUUID env" and "mc_StateDir mc = state_dir env"
    and "map_heap m' (mc_Labels mc) service_label = Some (mr_Service mreq)"
    and "map_heap m' (mc_Labels mc) image_label = Some (mr_Image mreq)"
    and "map_heap m' (mc_Labels mc) namespace_label = Some (mr_Namespace mreq)"
    and "state_dirs m' = insert (state_dir env) (state_dirs m)" and "\<not> ms_lock m'"
    and "pending m' = pending m @ [(mr_Service mreq, if_IP iface)]"
    and "networkController m' = networkController m" and "healthChecklock m' = healthChecklock m"
proof (rule createMachine_runs[OF assms])
  fix v vols iface refs m2 mc
  assume iface: "setup_network env (uuid_NewUUID env) = Ret (Inr iface)"
    and refs: "set_labels mreq v (m\<lparr>state_dirs := insert (state_dir env) (state_dirs m), ms_lock := True\<rparr>) = (refs, m2)"
    and mc: "mc_UID mc = uuid_NewUUID env" "mc_Labels mc = fst refs" "mc_Annotations mc = snd refs"
      "mc_StateDir mc = state_dir env"
    and run: "createMachine env mreq m = (Ret None, m2\<lparr>ms_lock := False,
           pending := pending m2 @ [(mr_Service mreq, if_IP iface)],
           machineInstanceMapv2 := (machineInstanceMapv2 m2)(uuid_NewUUID env \<mapsto> mc),
           machineNetworkMapv2 := (machineNetworkMapv2 m2)(uuid_NewUUID env \<mapsto> iface)\<rparr>)"
  note fr = set_labels_frame[OF refs]
  have "set_labels mreq v (m\<lparr>state_dirs := insert (state_dir env) (state_dirs m), ms_lock := True\<rparr>)
      = ((fst refs, snd refs), m2)" using refs by simp
  note en = set_labels_entries[OF this]
  show thesis
    by (rule that[where mc = mc, OF run iface]) (use fr en mc in \<open>simp_all add: mc(2)\<close>)
qed

definition sample_request :: MachineRequest where
  "sample_request = function_request (sample_md ''f'')
     \<lparr>tg_Architecture = ''x86_64'', tg_Platform = ''qemu'', tg_Format = ''oci'', tg_Kernel = ''unikraft/bin/kernel''\<rparr>"

lemma sample_calls_succeed [simp]: "calls_succeed sample_menv mreq"
  by (simp add: calls_succeed_def sample_menv_def setup_volume_def setup_network_def Let_def)

section \<open>Properties of a creation\<close>

text \<open>
  C6: deploying a function creates its machine: when the library calls succeed and the mutex is free,
  \<open>NewMachine\<close> returns nil, stores one machine and its interface under a new UID with the labels of
  the function, keeps its state directory, releases the mutex, and registers no address yet: the
  address waits for the watchdog.
\<close>

theorem NewMachine_stores_machine:
  assumes targ: "pack_target (md_Package md) = Some targ"
    and "calls_succeed env (function_request md targ)" and "service_ok env" and "\<not> ms_lock m"
  shows "\<exists>m' mc iface. NewMachine env md m = (Ret None, m') \<and>
    setup_network env (uuid_NewUUID env) = Ret (Inr iface) \<and>
    machineInstanceMapv2 m' = (machineInstanceMapv2 m)(uuid_NewUUID env \<mapsto> mc) \<and>
    machineNetworkMapv2 m' = (machineNetworkMapv2 m)(uuid_NewUUID env \<mapsto> iface) \<and>
    mc_UID mc = uuid_NewUUID env \<and> service_of m' mc = fd_Service (md_FunctionDeployment md) \<and>
    map_heap m' (mc_Labels mc) image_label = Some (fd_Image (md_FunctionDeployment md)) \<and>
    map_heap m' (mc_Labels mc) namespace_label = Some (fd_Namespace (md_FunctionDeployment md)) \<and>
    state_dirs m' = insert (mc_StateDir mc) (state_dirs m) \<and> \<not> ms_lock m' \<and>
    networkController m' = networkController m \<and>
    pending m' = pending m @ [(fd_Service (md_FunctionDeployment md), if_IP iface)]"
proof (rule createMachine_success[OF assms(2-4)])
  fix m' mc iface
  assume r: "createMachine env (function_request md targ) m = (Ret None, m')"
    "setup_network env (uuid_NewUUID env) = Ret (Inr iface)"
    "machineInstanceMapv2 m' = (machineInstanceMapv2 m)(uuid_NewUUID env \<mapsto> mc)"
    "machineNetworkMapv2 m' = (machineNetworkMapv2 m)(uuid_NewUUID env \<mapsto> iface)"
    "mc_UID mc = uuid_NewUUID env" "mc_StateDir mc = state_dir env"
    "map_heap m' (mc_Labels mc) service_label = Some (mr_Service (function_request md targ))"
    "map_heap m' (mc_Labels mc) image_label = Some (mr_Image (function_request md targ))"
    "map_heap m' (mc_Labels mc) namespace_label = Some (mr_Namespace (function_request md targ))"
    "state_dirs m' = insert (state_dir env) (state_dirs m)" "\<not> ms_lock m'"
    "pending m' = pending m @ [(mr_Service (function_request md targ), if_IP iface)]"
    "networkController m' = networkController m"
  have "NewMachine env md m = (Ret None, m')" using targ r(1) by (simp add: NewMachine_def)
  with r show ?thesis
    by (intro exI[of _ m'] exI[of _ mc] exI[of _ iface])
      (simp add: service_of_def go_lookup_def function_request_def Let_def)
qed

theorem NewMachine_stores_machine_witness:
  "\<exists>m' mc. NewMachine sample_menv (sample_md ''f'') (NewMachineStore ()) = (Ret None, m') \<and>
    machineInstanceMapv2 m' ''uid3'' = Some mc \<and> service_of m' mc = ''f'' \<and> pending m' = [(''f'', ''10.0.0.3'')]"
proof -
  have "pack_target (md_Package (sample_md ''f'')) = Some \<lparr>tg_Architecture = ''x86_64'', tg_Platform = ''qemu'',
      tg_Format = ''oci'', tg_Kernel = ''unikraft/bin/kernel''\<rparr>"
    by (simp add: sample_md_def sample_pack_def)
  from NewMachine_stores_machine[OF this sample_calls_succeed sample_menv_ok, of "NewMachineStore ()"]
  show ?thesis
    by (auto simp: NewMachineStore_def sample_menv_def setup_network_def own_interface_def sample_md_def
        sample_req_def Let_def)
qed

text \<open>The failures of a creation between \<open>Lock\<close> and \<open>Unlock\<close>.\<close>

definition fails_locked :: "machine_env \<Rightarrow> bool" where
  "fails_locked env \<longleftrightarrow>
     (case setup_network env (uuid_NewUUID env) of
        Ret (Inr i) \<Rightarrow> \<not> Strategies env (fst (mp_Detect env)) \<or>
          NewMachineV1alpha1 env (fst (mp_Detect env)) \<noteq> None \<or>
          (\<forall>mc. fst (snd (machine_Create env mc)) = False \<and> snd (snd (machine_Create env mc)) \<noteq> None)
      | Ret (Inl err) \<Rightarrow> True
      | _ \<Rightarrow> False)"

text \<open>A creation reaches its \<open>Lock\<close>: the state directory and the volume are set up.\<close>

definition reaches_lock :: "machine_env \<Rightarrow> MachineRequest \<Rightarrow> bool" where
  "reaches_lock env mreq \<longleftrightarrow> os_MkdirAll env (state_dir env) = None \<and>
     (\<exists>v. setup_volume env (mr_StoragePath mreq) (state_dir env) = Inr v)"

lemma createMachine_blocks:
  assumes "reaches_lock env mreq" and "ms_lock m"
  shows "createMachine env mreq m = (Blocked, m\<lparr>state_dirs := insert (state_dir env) (state_dirs m)\<rparr>)"
  using assms
  by (auto simp: reaches_lock_def createMachine_def create_body_def Let_def simp flip: state_dir_def)

lemma launch_fails_locked:
  assumes "fails_locked env" and "setup_network env (uuid_NewUUID env) = Ret (Inr i)"
  shows "\<exists>e errSet. launch_machine env mreq iface mc m = (Ret (Some e, errSet, False), m)"
proof (cases "Strategies env (fst (mp_Detect env)) \<and> NewMachineV1alpha1 env (fst (mp_Detect env)) = None")
  case True
  obtain obj isnil e where c: "machine_Create env mc = (obj, isnil, e)" by (cases "machine_Create env mc")
  with assms True have "isnil = False" and "e \<noteq> None"
    by (force simp: fails_locked_def dest: spec[of _ mc])+
  then show ?thesis using c True
    by (cases "mp_Detect env"; cases e) (auto simp: launch_machine_def start_machine_def)
next
  case False
  then show ?thesis
    by (cases "mp_Detect env") (auto simp: launch_machine_def)
qed

text \<open>
  C7: a creation that fails while it holds the mutex of the store keeps it: the error of the bridge,
  of the platform or of the machine service is returned, nothing is stored, and from then on every
  creation that reaches the mutex blocks for ever.
\<close>

theorem failed_creation_keeps_mutex:
  assumes free: "\<not> ms_lock m" and reach: "reaches_lock env mreq" and fails: "fails_locked env"
  shows "\<exists>err m'. createMachine env mreq m = (Ret (Some err), m') \<and> ms_lock m' \<and>
    machineInstanceMapv2 m' = machineInstanceMapv2 m \<and> pending m' = pending m \<and>
    (\<forall>env' mreq'. reaches_lock env' mreq' \<longrightarrow> fst (createMachine env' mreq' m') = Blocked)"
proof -
  let ?m0 = "m\<lparr>state_dirs := insert (state_dir env) (state_dirs m), ms_lock := True\<rparr>"
  from reach obtain v vols where v: "setup_volume env (mr_StoragePath mreq) (state_dir env) = Inr (v, vols)"
    and mk: "os_MkdirAll env (state_dir env) = None"
    by (auto simp: reaches_lock_def)
  have "\<exists>e errSet m2. create_body env mreq (state_dir env) (m\<lparr>state_dirs := insert (state_dir env) (state_dirs m)\<rparr>) =
      (Ret (Some e, errSet, False), m2) \<and> ms_lock m2 \<and>
      machineInstanceMapv2 m2 = machineInstanceMapv2 m \<and> pending m2 = pending m"
  proof (cases "setup_network env (uuid_NewUUID env)")
    case (Ret res)
    show ?thesis
    proof (cases res)
      case (Inl err)
      with Ret v free show ?thesis
        by (intro exI[of _ err] exI[of _ True] exI[of _ ?m0]) (simp add: create_body_def Let_def)
    next
      case (Inr iface)
      obtain refs m2 where refs: "set_labels mreq v ?m0 = (refs, m2)" by fastforce
      from launch_fails_locked[OF fails, of iface] Ret Inr obtain e errSet where
        l: "launch_machine env mreq iface (new_machine_object env mreq (state_dir env) refs vols iface) m2 =
          (Ret (Some e, errSet, False), m2)" by blast
      have "create_body env mreq (state_dir env) (m\<lparr>state_dirs := insert (state_dir env) (state_dirs m)\<rparr>) =
          (Ret (Some e, errSet, False), m2)"
        using Ret Inr v free refs l by (simp add: create_body_def Let_def)
      with set_labels_frame[OF refs] show ?thesis by simp
    qed
  qed (use fails in \<open>simp_all add: fails_locked_def\<close>)
  then obtain e errSet m2 where body:
      "create_body env mreq (state_dir env) (m\<lparr>state_dirs := insert (state_dir env) (state_dirs m)\<rparr>) =
      (Ret (Some e, errSet, False), m2)" and m2: "ms_lock m2"
      "machineInstanceMapv2 m2 = machineInstanceMapv2 m" "pending m2 = pending m" by blast
  let ?m' = "if errSet then m2\<lparr>state_dirs := state_dirs m2 - {state_dir env}\<rparr> else m2"
  have "createMachine env mreq m = (Ret (Some e), ?m')"
    using mk unfolding createMachine_def Let_def state_dir_def[symmetric]
    by (simp add: body create_cleanup_def)
  moreover have "ms_lock ?m'" "machineInstanceMapv2 ?m' = machineInstanceMapv2 m" "pending ?m' = pending m"
    using m2 by simp_all
  ultimately show ?thesis using createMachine_blocks by (metis fst_conv)
qed

theorem failed_creation_keeps_mutex_witness:
  "\<exists>err m'. createMachine (sample_menv\<lparr>network_Get := (\<lambda>_. Inl (LibError ''no bridge''))\<rparr>) sample_request
      (NewMachineStore ()) = (Ret (Some err), m') \<and> fst (createMachine sample_menv sample_request m') = Blocked"
proof -
  let ?env = "sample_menv\<lparr>network_Get := (\<lambda>_. Inl (LibError ''no bridge''))\<rparr>"
  have "\<not> ms_lock (NewMachineStore ())" by (simp add: NewMachineStore_def)
  moreover have "reaches_lock ?env sample_request" "reaches_lock sample_menv sample_request"
    by (simp_all add: reaches_lock_def sample_menv_def setup_volume_def)
  moreover have "fails_locked ?env" by (simp add: fails_locked_def setup_network_def sample_menv_def)
  ultimately show ?thesis using failed_creation_keeps_mutex[of "NewMachineStore ()" ?env sample_request] by blast
qed

text \<open>
  A volume that cannot be set up is reported, and the state directory of the machine stays on
  disk: the deferred clean-up does not see that error. The mutex is not touched.
\<close>

theorem failed_volume_leaves_directory:
  assumes "os_MkdirAll env (state_dir env) = None"
    and "setup_volume env (mr_StoragePath mreq) (state_dir env) = Inl err"
  shows "createMachine env mreq m = (Ret (Some err), m\<lparr>state_dirs := insert (state_dir env) (state_dirs m)\<rparr>)"
  using assms unfolding createMachine_def Let_def state_dir_def[symmetric]
  by (simp add: create_body_def create_cleanup_def)

theorem failed_volume_leaves_directory_witness:
  "state_dirs (snd (createMachine (sample_menv\<lparr>os_Stat := (\<lambda>_. None), cp_rT := (\<lambda>_ _. Some (LibError ''cp''))\<rparr>)
      sample_request (NewMachineStore ()))) = {path_Join [MachineDirectory, ''uid3'']}"
proof -
  let ?env = "sample_menv\<lparr>os_Stat := (\<lambda>_. None), cp_rT := (\<lambda>_ _. Some (LibError ''cp''))\<rparr>"
  have "os_MkdirAll ?env (state_dir ?env) = None"
    and "setup_volume ?env (mr_StoragePath sample_request) (state_dir ?env) =
      Inl (Wrapf ''failed to copy volume directory : '' (LibError ''cp''))"
    by (simp_all add: sample_menv_def setup_volume_def copyDirectory_def Let_def)
  from failed_volume_leaves_directory[OF this, of "NewMachineStore ()"]
  show ?thesis by (simp add: NewMachineStore_def state_dir_def sample_menv_def)
qed

section \<open>Clones\<close>

text \<open>
  Two machines share a map, of labels or of annotations, only when they serve the same function.
\<close>

definition labels_wf :: "'n MachineStore \<Rightarrow> bool" where
  "labels_wf m \<longleftrightarrow> keyed m \<and> finite (dom (machineInstanceMapv2 m)) \<and>
     (\<forall>k1 k2 mc1 mc2. machineInstanceMapv2 m k1 = Some mc1 \<longrightarrow> machineInstanceMapv2 m k2 = Some mc2 \<longrightarrow>
        {mc_Labels mc1, mc_Annotations mc1} \<inter> {mc_Labels mc2, mc_Annotations mc2} \<noteq> {} \<longrightarrow>
        service_of m mc1 = service_of m mc2)"

lemma labels_wfD:
  assumes "labels_wf m"
  shows "keyed m" and "finite (dom (machineInstanceMapv2 m))"
    and "machineInstanceMapv2 m k1 = Some mc1 \<Longrightarrow> machineInstanceMapv2 m k2 = Some mc2 \<Longrightarrow>
      {mc_Labels mc1, mc_Annotations mc1} \<inter> {mc_Labels mc2, mc_Annotations mc2} \<noteq> {} \<Longrightarrow>
      service_of m mc1 = service_of m mc2"
  using assms unfolding labels_wf_def by blast+

definition clone_labels :: "'n MachineStore \<Rightarrow> Machine \<Rightarrow> string \<Rightarrow> string \<rightharpoonup> string" where
  "clone_labels m src layer = (map_heap m (mc_Annotations src))(
     service_label \<mapsto> go_lookup (map_heap m (mc_Labels src)) service_label,
     image_label \<mapsto> go_lookup (map_heap m (mc_Labels src)) image_label,
     namespace_label \<mapsto> go_lookup (map_heap m (mc_Labels src)) namespace_label,
     filesystem_annotation \<mapsto> layer)"

text \<open>A creation whose labels and annotations are one map, as every clone makes.\<close>

definition request_labels :: "MachineRequest \<Rightarrow> string \<Rightarrow> (string \<rightharpoonup> string) \<Rightarrow> string \<rightharpoonup> string" where
  "request_labels mreq layer h = h(service_label \<mapsto> mr_Service mreq, image_label \<mapsto> mr_Image mreq,
     namespace_label \<mapsto> mr_Namespace mreq, filesystem_annotation \<mapsto> layer)"

lemma request_labels_service [simp]: "request_labels mreq layer h service_label = Some (mr_Service mreq)"
  by (simp add: request_labels_def)

lemma clone_labels_request:
  "clone_labels m src layer = request_labels (clone_request m src) layer (map_heap m (mc_Annotations src))"
  by (simp add: clone_labels_def request_labels_def clone_request_def Let_def)

lemma request_runs:
  assumes "calls_succeed env mreq" and "service_ok env" and "\<not> ms_lock m"
    and given: "mr_Annotations mreq = Some a" "mr_Labels mreq = Some a"
  obtains m' mc layer iface where "createMachine env mreq m = (Ret None, m')"
    and "mc_UID mc = uuid_NewUUID env" and "mc_Labels mc = a" and "mc_Annotations mc = a"
    and "map_heap m' = (map_heap m)(a := request_labels mreq layer (map_heap m a))"
    and "machineInstanceMapv2 m' = (machineInstanceMapv2 m)(uuid_NewUUID env \<mapsto> mc)"
    and "machineNetworkMapv2 m' = (machineNetworkMapv2 m)(uuid_NewUUID env \<mapsto> iface)"
    and "\<not> ms_lock m'" and "healthChecklock m' = healthChecklock m"
    and "networkController m' = networkController m"
    and "pending m' = pending m @ [(mr_Service mreq, if_IP iface)]"
    and "\<exists>x. mc = fst (machine_Start env x)"
proof (rule createMachine_runs[OF assms(1-3)])
  fix v vols iface refs m2 mc
  assume refs: "set_labels mreq v (m\<lparr>state_dirs := insert (state_dir env) (state_dirs m), ms_lock := True\<rparr>) = (refs, m2)"
    and st: "mc = fst (machine_Start env (fst (machine_Create env
           (new_machine_object env mreq (state_dir env) refs vols iface))))"
    and mc: "mc_UID mc = uuid_NewUUID env" "mc_Labels mc = fst refs" "mc_Annotations mc = snd refs"
    and run: "createMachine env mreq m = (Ret None, m2\<lparr>ms_lock := False,
           pending := pending m2 @ [(mr_Service mreq, if_IP iface)],
           machineInstanceMapv2 := (machineInstanceMapv2 m2)(uuid_NewUUID env \<mapsto> mc),
           machineNetworkMapv2 := (machineNetworkMapv2 m2)(uuid_NewUUID env \<mapsto> iface)\<rparr>)"
  from refs[unfolded set_labels_given[OF given]]
  have r: "refs = (a, a)" and heap: "map_heap m2 = (map_heap m)(a := request_labels mreq v (map_heap m a))"
    by (auto simp: request_labels_def)
  from set_labels_frame[OF refs]
  have fr: "healthChecklock m2 = healthChecklock m" "machineInstanceMapv2 m2 = machineInstanceMapv2 m"
    "machineNetworkMapv2 m2 = machineNetworkMapv2 m" "networkController m2 = networkController m"
    "pending m2 = pending m" by simp_all
  have "\<exists>x. mc = fst (machine_Start env x)" using st by (rule exI)
  then show thesis
    by (intro that[where mc = mc and layer = v and iface = iface, OF run]) (simp_all add: mc r heap fr)
qed

lemma clone_runs:
  assumes "calls_succeed env (clone_request m src)" and "service_ok env" and "\<not> ms_lock m"
  obtains m' mc layer where "createMachine env (clone_request m src) m = (Ret None, m')"
    and "mc_Labels mc = mc_Annotations src" and "mc_Annotations mc = mc_Annotations src"
    and "map_heap m' = (map_heap m)(mc_Annotations src := clone_labels m src layer)"
    and "machineInstanceMapv2 m' = (machineInstanceMapv2 m)(uuid_NewUUID env \<mapsto> mc)"
proof -
  have given: "mr_Annotations (clone_request m src) = Some (mc_Annotations src)"
    "mr_Labels (clone_request m src) = Some (mc_Annotations src)" by (simp_all add: clone_request_def Let_def)
  show thesis
    by (rule request_runs[OF assms given, folded clone_labels_request]) (erule that, assumption+)
qed

text \<open>A clone serves the function of its source, and no other machine changes its function.\<close>

lemma clone_service_of:
  assumes wf: "labels_wf m" and src: "machineInstanceMapv2 m key = Some src"
    and heap: "map_heap m' = (map_heap m)(mc_Annotations src := lbl)" and lbl: "lbl service_label = Some (service_of m src)"
    and other: "machineInstanceMapv2 m k = Some x"
  shows "service_of m' x = service_of m x"
proof (cases "mc_Labels x = mc_Annotations src")
  case True
  then have "service_of m x = service_of m src" using labels_wfD(3)[OF wf other src] by simp
  with True show ?thesis
    using lbl by (simp add: service_of_def heap go_lookup_def)
next
  case False
  then show ?thesis by (simp add: service_of_def heap)
qed

lemma clone_store:
  assumes wf: "labels_wf m" and src: "machineInstanceMapv2 m key = Some src"
    and new: "uid \<notin> dom (machineInstanceMapv2 m)"
    and mc: "mc_UID mc = uid" "mc_Labels mc = mc_Annotations src" "mc_Annotations mc = mc_Annotations src"
    and heap: "map_heap m' = (map_heap m)(mc_Annotations src := lbl)" and lbl: "lbl service_label = Some (service_of m src)"
    and inst: "machineInstanceMapv2 m' = (machineInstanceMapv2 m)(uid \<mapsto> mc)"
  shows "labels_wf m'" and "service_of m' mc = service_of m src"
    and "replica_set m' svc = replica_set m svc \<union> (if is_running mc \<and> svc = service_of m src then {uid} else {})"
proof -
  note same = clone_service_of[OF wf src heap lbl]
  show svc: "service_of m' mc = service_of m src"
    using lbl by (simp add: service_of_def mc heap go_lookup_def)
  have old: "service_of m' x = service_of m x \<and> machineInstanceMapv2 m k = Some x \<or> k = uid \<and> x = mc"
    if "machineInstanceMapv2 m' k = Some x" for k x
    using that same[of k x] by (auto simp: inst split: if_splits)
  have origin: "\<exists>k' y. machineInstanceMapv2 m k' = Some y \<and> service_of m y = service_of m' x \<and>
      {mc_Labels x, mc_Annotations x} \<subseteq> {mc_Labels y, mc_Annotations y}"
    if "machineInstanceMapv2 m' k = Some x" for k x
    using old[OF that] src svc mc(2,3) by (elim disjE) auto
  have "service_of m' x1 = service_of m' x2"
    if x1: "machineInstanceMapv2 m' k1 = Some x1" and x2: "machineInstanceMapv2 m' k2 = Some x2"
      and sh: "{mc_Labels x1, mc_Annotations x1} \<inter> {mc_Labels x2, mc_Annotations x2} \<noteq> {}" for k1 k2 x1 x2
  proof -
    from origin[OF x1] obtain j1 y1 where y1: "machineInstanceMapv2 m j1 = Some y1"
      "service_of m y1 = service_of m' x1" "{mc_Labels x1, mc_Annotations x1} \<subseteq> {mc_Labels y1, mc_Annotations y1}" by blast
    from origin[OF x2] obtain j2 y2 where y2: "machineInstanceMapv2 m j2 = Some y2"
      "service_of m y2 = service_of m' x2" "{mc_Labels x2, mc_Annotations x2} \<subseteq> {mc_Labels y2, mc_Annotations y2}" by blast
    from sh y1(3) y2(3) have "{mc_Labels y1, mc_Annotations y1} \<inter> {mc_Labels y2, mc_Annotations y2} \<noteq> {}" by blast
    from labels_wfD(3)[OF wf y1(1) y2(1) this] y1(2) y2(2) show ?thesis by simp
  qed
  moreover have "keyed m'" using labels_wfD(1)[OF wf] mc(1) by (auto simp: keyed_def inst)
  moreover have "finite (dom (machineInstanceMapv2 m'))" using labels_wfD(2)[OF wf] by (simp add: inst)
  ultimately show "labels_wf m'" unfolding labels_wf_def by blast
  have replica_set_one: "replica_set m' svc = replica_set m svc \<union> (if P then {uid} else {})"
    if "\<And>k. k \<noteq> uid \<Longrightarrow> serves m' svc k = serves m svc k" "serves m' svc uid = P" "\<not> serves m svc uid" for P
  proof (rule set_eqI)
    fix k
    show "k \<in> replica_set m' svc \<longleftrightarrow> k \<in> replica_set m svc \<union> (if P then {uid} else {})"
      using that by (cases "k = uid") (simp_all add: replica_set_def)
  qed
  have serves: "serves m' svc k \<longleftrightarrow> serves m svc k" if "k \<noteq> uid" for k
    using that same[of k] by (auto simp: serves_def inst split: option.splits)
  have at_uid: "serves m' svc uid = (is_running mc \<and> svc = service_of m src)"
    by (auto simp: serves_def inst svc)
  have "\<not> serves m svc uid" using new by (auto simp: serves_def split: option.splits)
  from replica_set_one[OF serves at_uid this] show "replica_set m' svc = replica_set m svc \<union> (if is_running mc \<and> svc = service_of m src then {uid} else {})"
    .
qed

lemma CloneMachine_found:
  assumes "getFunctionMachine (order_of (machineInstanceMapv2 m)) service m = Inr src"
  shows "CloneMachine env order_of service m = createMachine env (clone_request m src) m"
  using assms by (simp add: CloneMachine_def)

text \<open>
  C12: the labels of a clone are the annotations of its source, in one shared map: the clone serves
  the same function, but the user's labels are lost (its other labels read as the annotations of the
  source), and the labels the store writes appear among the annotations of the source.
\<close>

theorem clone_labels_are_annotations:
  assumes ord: "range_order (machineInstanceMapv2 m) (order_of (machineInstanceMapv2 m))"
    and src: "getFunctionMachine (order_of (machineInstanceMapv2 m)) service m = Inr src"
    and "calls_succeed env (clone_request m src)" and "service_ok env" and "\<not> ms_lock m"
  shows "\<exists>m' mc. CloneMachine env order_of service m = (Ret None, m') \<and>
    machineInstanceMapv2 m' = (machineInstanceMapv2 m)(uuid_NewUUID env \<mapsto> mc) \<and>
    mc_Labels mc = mc_Annotations src \<and> mc_Annotations mc = mc_Annotations src \<and>
    service_of m' mc = service \<and>
    (\<forall>k. k \<notin> {service_label, image_label, namespace_label, filesystem_annotation} \<longrightarrow>
       map_heap m' (mc_Labels mc) k = map_heap m (mc_Annotations src) k) \<and>
    map_heap m' (mc_Annotations src) service_label = Some service"
proof -
  from ord src have svc: "service_of m src = service"
    by (cases rule: getFunctionMachine_cases[of m "order_of (machineInstanceMapv2 m)" service]) simp_all
  show ?thesis
  proof (rule clone_runs[OF assms(3-5)])
    fix m' mc layer
    assume run: "createMachine env (clone_request m src) m = (Ret None, m')"
      and mc: "mc_Labels mc = mc_Annotations src" "mc_Annotations mc = mc_Annotations src"
      and heap: "map_heap m' = (map_heap m)(mc_Annotations src := clone_labels m src layer)"
      and inst: "machineInstanceMapv2 m' = (machineInstanceMapv2 m)(uuid_NewUUID env \<mapsto> mc)"
    have label: "map_heap m' (mc_Annotations src) service_label = Some service"
      using svc by (simp add: heap clone_labels_def service_of_def)
    then have "service_of m' mc = service" by (simp add: service_of_def mc go_lookup_def)
    with label show ?thesis
      using run inst mc by (intro exI[of _ m'] exI[of _ mc])
        (simp add: CloneMachine_found[of order_of m, OF src] heap clone_labels_def)
  qed
qed

theorem clone_labels_are_annotations_witness:
  "\<exists>m' mc. CloneMachine sample_menv (\<lambda>_. [''uid1'', ''uid2'']) ''f'' (sample_machines ()) = (Ret None, m') \<and>
    machineInstanceMapv2 m' ''uid3'' = Some mc \<and> service_of m' mc = ''f'' \<and>
    map_heap m' (mc_Labels mc) ''tier'' = None \<and>
    map_heap (sample_machines ()) (mc_Labels (sample_machine ''uid1'')) ''tier'' = Some ''gold''"
proof -
  have free: "\<not> ms_lock (sample_machines ())" by (simp add: sample_machines_def)
  have tier: "''tier'' \<notin> {service_label, image_label, namespace_label, filesystem_annotation}"
    by (simp add: label_defs)
  have uid: "uuid_NewUUID sample_menv = ''uid3''" by (simp add: sample_menv_def)
  from clone_labels_are_annotations[OF sample_order sample_pick sample_calls_succeed sample_menv_ok free] tier uid
  obtain m' mc where "CloneMachine sample_menv (\<lambda>_. [''uid1'', ''uid2'']) ''f'' (sample_machines ()) = (Ret None, m')"
    "machineInstanceMapv2 m' = (machineInstanceMapv2 (sample_machines ()))(''uid3'' \<mapsto> mc)" "service_of m' mc = ''f''"
    "map_heap m' (mc_Labels mc) ''tier'' = map_heap (sample_machines ()) (mc_Annotations (sample_machine ''uid1'')) ''tier''"
    by metis
  then show ?thesis
    by (intro exI[of _ m'] exI[of _ mc]) (simp add: sample_machines_def sample_machine_def)
qed

end
