(* ===== verification/Scaling.thy ===== *)
theory Scaling
  imports MachineCreation "HOL-Library.List_Lexorder" "HOL-Library.Char_ord"
begin

text \<open>
  Scaling a function: the interleavings of the goroutines that \<open>ScaleMachinesTo\<close> starts as a step
  relation, what holds under every schedule, and what one particular schedule does.
\<close>

section \<open>Goroutines along a schedule\<close>

lemma interleave_invariant:
  assumes "I m gs" and "\<And>i m gs. I m gs \<Longrightarrow> i < length gs \<Longrightarrow> \<exists>g m'. step i (gs ! i) m = (Ret g, m') \<and> I m' (gs[i := g])"
  shows "\<exists>gs' m'. interleave step sched gs m = (Ret gs', m') \<and> I m' gs'"
  using assms(1)
proof (induction sched arbitrary: m gs)
  case Nil
  then show ?case by simp
next
  case (Cons i sched)
  show ?case
  proof (cases "i < length gs")
    case True
    from assms(2)[OF Cons.prems True] obtain g m1 where "step i (gs ! i) m = (Ret g, m1)" "I m1 (gs[i := g])" by blast
    with Cons.IH[of m1 "gs[i := g]"] True show ?thesis by simp
  next
    case False
    with Cons show ?thesis by simp
  qed
qed

text \<open>
  Every goroutine ends: with each of its steps it comes closer to its end, and the remaining steps give
  it four.
\<close>

lemma interleave_left:
  assumes stuck: "left Stuck = (0 :: nat)" and closer: "\<And>i g m g' m'. step i g m = (Ret g', m') \<Longrightarrow> left g' \<le> left g - 1"
  shows "interleave step sched gs m = (Ret gs', m') \<Longrightarrow>
    length gs' = length gs \<and> (\<forall>i < length gs. left (gs' ! i) \<le> left (gs ! i) - count_list sched i)"
proof (induction sched arbitrary: gs m)
  case Nil
  then show ?case by simp
next
  case (Cons j sched)
  have one: "length gs' = length gs \<and> (\<forall>i < length gs. left (gs' ! i) \<le> left (gs ! i) - count_list (j # sched) i)"
    if j: "j < length gs" and g: "left g \<le> left (gs ! j) - 1" and run: "interleave step sched (gs[j := g]) m1 = (Ret gs', m')"
    for g m1
  proof -
    note IH = Cons.IH[OF run]
    have "left (gs' ! i) \<le> left (gs ! i) - count_list (j # sched) i" if "i < length gs" for i
      using IH that g by (cases "i = j") (fastforce simp: nth_list_update)+
    with IH show ?thesis by simp
  qed
  show ?case
  proof (cases "j < length gs")
    case False
    with Cons.prems Cons.IH[of gs m] show ?thesis by auto
  next
    case True
    obtain r m1 where r: "step j (gs ! j) m = (r, m1)" by fastforce
    show ?thesis
    proof (cases r)
      case (Ret g)
      with r closer[of j "gs ! j" m g m1] Cons.prems True show ?thesis by (intro one[of g m1]) simp_all
    next
      case (Panic msg)
      with r Cons.prems True show ?thesis by simp
    next
      case Blocked
      with r Cons.prems True stuck show ?thesis by (intro one[of Stuck m1]) simp_all
    qed
  qed
qed

lemma count_remaining_steps: "count_list (remaining_steps k) i = (if i < k then 4 else 0)"
proof (induction k)
  case 0
  then show ?case by (simp add: remaining_steps_def)
next
  case (Suc k)
  have "remaining_steps (Suc k) = remaining_steps k @ replicate 4 k" by (simp add: remaining_steps_def)
  moreover have "count_list (replicate 4 k) i = (if i = k then 4 else 0)" by (simp add: numeral_eq_Suc)
  ultimately show ?case using Suc by simp
qed

fun delete_left :: "goroutine \<Rightarrow> nat" where
  "delete_left Ready = 4" | "delete_left (Picked mc) = 3" | "delete_left (Marked mc) = 2"
| "delete_left (Deregistered mc iface) = 1" | "delete_left g = 0"

fun clone_left :: "goroutine \<Rightarrow> nat" where
  "clone_left Ready = 3" | "clone_left (Picked mc) = 2" | "clone_left (Requested mreq) = 1" | "clone_left g = 0"

lemma choose_machine_result: "choose_machine order_of service m = (r, m') \<Longrightarrow>
    m' = m \<and> (r = Ret Finished \<or> (\<exists>mc. r = Ret (Picked mc)))"
  by (auto simp: choose_machine_def split: sum.splits)

lemma delete_step_left: "delete_step nc env order_of service g m = (Ret g', m') \<Longrightarrow> delete_left g' \<le> delete_left g - 1"
  by (cases g) (auto simp: Let_def go_bind_def go_return_def split: outcome.splits prod.splits sum.splits
      dest!: choose_machine_result)

lemma clone_step_left: "clone_step env order_of service g m = (Ret g', m') \<Longrightarrow> clone_left g' \<le> clone_left g - 1"
  by (cases g) (auto simp: go_bind_def go_return_def split: outcome.splits prod.splits dest!: choose_machine_result)

lemma goroutines_end:
  assumes stuck: "left Stuck = (0 :: nat)" and closer: "\<And>i g m g' m'. step i g m = (Ret g', m') \<Longrightarrow> left g' \<le> left g - 1"
    and four: "left Ready \<le> 4"
    and run: "interleave step (sched @ remaining_steps k) (replicate k Ready) m = (Ret gs, m')" and g: "g \<in> set gs"
  shows "left g = 0"
proof -
  from g obtain i where i: "i < length gs" "g = gs ! i" by (auto simp: in_set_conv_nth)
  have "length gs = k" "\<forall>i < k. left (gs ! i) \<le> left Ready - count_list (sched @ remaining_steps k) i"
    using interleave_left[where left = left and step = step, OF stuck closer run] by auto
  then have "left g \<le> left Ready - 4" using i by (fastforce simp: count_remaining_steps)
  with four show ?thesis by simp
qed

section \<open>Scaling down under any schedule\<close>

text \<open>
  A scale-down as a step relation: any goroutine makes its next step, with any of the answers the
  libraries may give and in any order of the machines.
\<close>

inductive scale_down_step ::
  "'n NetworkController \<Rightarrow> machine_env set \<Rightarrow> string \<Rightarrow> 'n MachineStore \<times> goroutine list \<Rightarrow>
   'n MachineStore \<times> goroutine list \<Rightarrow> bool"
  for nc :: "'n NetworkController" and answers :: "machine_env set" and service :: string
where
  move: "i < length gs \<Longrightarrow> env \<in> answers \<Longrightarrow>
    range_order (machineInstanceMapv2 m) (order_of (machineInstanceMapv2 m)) \<Longrightarrow>
    delete_step nc env order_of service (gs ! i) m = (Ret g, m') \<Longrightarrow>
    scale_down_step nc answers service (m, gs) (m', gs[i := g])"
| block: "i < length gs \<Longrightarrow> env \<in> answers \<Longrightarrow>
    range_order (machineInstanceMapv2 m) (order_of (machineInstanceMapv2 m)) \<Longrightarrow>
    delete_step nc env order_of service (gs ! i) m = (Blocked, m') \<Longrightarrow>
    scale_down_step nc answers service (m, gs) (m', gs[i := Stuck])"

inductive_cases scale_down_stepE: "scale_down_step nc answers service (m, gs) (m', gs')"

fun spent :: "goroutine \<Rightarrow> bool" where
  "spent Ready = False" | "spent (Picked mc) = False" | "spent (Requested mreq) = False" | "spent g = True"

definition spent_count :: "goroutine list \<Rightarrow> nat" where
  "spent_count gs = length (filter spent gs)"

lemma spent_count_update:
  assumes "i < length gs"
  shows "spent_count (gs[i := g]) + (if spent (gs ! i) then 1 else 0) = spent_count gs + (if spent g then 1 else 0)"
  using assms
proof (induction gs arbitrary: i)
  case Nil
  then show ?case by simp
next
  case (Cons x gs)
  then show ?case by (cases i) (auto simp: spent_count_def)
qed

lemma spent_count_le: "spent_count gs \<le> length gs"
  by (simp add: spent_count_def)

text \<open>
  The invariant of a scale-down from the replicas \<open>R0\<close>: a replica disappears only together with a
  goroutine that has marked it, and nothing else starts or stops to count.
\<close>

definition marked_ok :: "'n MachineStore \<Rightarrow> string \<Rightarrow> Machine \<Rightarrow> bool" where
  "marked_ok m service mc \<longleftrightarrow> service_of m mc = service \<and> service_of m (current_object m mc) = service \<and>
     \<not> is_running mc \<and> \<not> is_running (current_object m mc)"

definition target_ok :: "'n MachineStore \<Rightarrow> string \<Rightarrow> goroutine \<Rightarrow> bool" where
  "target_ok m service g = (case g of
      Picked mc \<Rightarrow> service_of m mc = service \<and> service_of m (current_object m mc) = service
    | Marked mc \<Rightarrow> marked_ok m service mc
    | Deregistered mc iface \<Rightarrow> marked_ok m service mc
    | _ \<Rightarrow> True)"

definition scale_down_inv :: "string \<Rightarrow> (string \<Rightarrow> string set) \<Rightarrow> 'n MachineStore \<Rightarrow> goroutine list \<Rightarrow> bool" where
  "scale_down_inv service R0 m gs \<longleftrightarrow>
     keyed m \<and> finite (dom (machineInstanceMapv2 m)) \<and> (\<forall>g\<in>set gs. target_ok m service g) \<and>
     replica_set m service \<subseteq> R0 service \<and>
     card (R0 service) \<le> card (replica_set m service) + spent_count gs \<and>
     (\<forall>svc. svc \<noteq> service \<longrightarrow> replica_set m svc = R0 svc)"

lemma scale_down_invD:
  assumes "scale_down_inv service R0 m gs"
  shows "keyed m" "finite (dom (machineInstanceMapv2 m))" "g \<in> set gs \<Longrightarrow> target_ok m service g"
    "replica_set m service \<subseteq> R0 service" "card (R0 service) \<le> card (replica_set m service) + spent_count gs"
    "svc \<noteq> service \<Longrightarrow> replica_set m svc = R0 svc"
  using assms by (simp_all add: scale_down_inv_def)

lemma set_update_cases: "x \<in> set (xs[i := y]) \<Longrightarrow> x \<in> set xs \<or> x = y"
  using set_update_subset_insert[of xs i y] by auto

lemma current_object_uid: "keyed m \<Longrightarrow> mc_UID (current_object m mc) = mc_UID mc"
  by (auto simp: current_object_def dest: keyedD split: option.split)

lemma finite_replica_set: "finite (dom (machineInstanceMapv2 m)) \<Longrightarrow> finite (replica_set m service)"
  by (rule finite_subset[OF replica_set_dom])

lemma replica_service: "key \<in> replica_set m svc \<Longrightarrow> machineInstanceMapv2 m key = Some mc \<Longrightarrow>
    service_of m mc = svc \<and> is_running mc"
  by (auto simp: replica_set_def serves_def)

lemma not_replica:
  assumes "service_of m (current_object m mc) \<noteq> svc \<or> \<not> is_running (current_object m mc)"
  shows "mc_UID mc \<notin> replica_set m svc"
  using assms by (auto simp: replica_set_def serves_def current_object_def split: option.splits)

lemma scale_down_pick:
  assumes inv: "scale_down_inv service R0 m gs" and i: "i < length gs" and g: "gs ! i = Ready"
    and ord: "range_order (machineInstanceMapv2 m) order"
    and pick: "getFunctionMachine order service m = Inr mc"
  shows "scale_down_inv service R0 m (gs[i := Picked mc])"
proof -
  from ord pick obtain key where k: "machineInstanceMapv2 m key = Some mc" "service_of m mc = service"
    by (cases rule: getFunctionMachine_cases[of m order service]) auto
  then have "current_object m mc = mc"
    using keyedD[OF scale_down_invD(1)[OF inv] k(1)] by (simp add: current_object_def)
  then have "target_ok m service (Picked mc)" using k(2) by (simp add: target_ok_def)
  moreover have "spent_count (gs[i := Picked mc]) = spent_count gs"
    using spent_count_update[OF i, of "Picked mc"] g by simp
  ultimately show ?thesis
    using inv by (auto simp: scale_down_inv_def dest!: set_update_cases)
qed

lemma scale_down_finish_none:
  assumes inv: "scale_down_inv service R0 m gs" and i: "i < length gs" and g: "gs ! i = Ready"
  shows "scale_down_inv service R0 m (gs[i := Finished])"
proof -
  have "spent_count (gs[i := Finished]) = Suc (spent_count gs)"
    using spent_count_update[OF i, of Finished] g by simp
  then show ?thesis using inv by (auto simp: scale_down_inv_def target_ok_def dest!: set_update_cases)
qed

lemma mark_target_ok:
  assumes "target_ok m service g" and "service_of m mc = service"
  shows "target_ok (mark_machine mc m) service g"
proof -
  have "current_object (mark_machine mc m) x =
      (if mc_UID x = mc_UID mc then mc\<lparr>mc_State := MachineStateUnknown\<rparr> else current_object m x)" for x
    by (simp add: current_object_def)
  moreover have "service_of (mark_machine mc m) x = service_of m x" for x by (simp add: service_of_def)
  ultimately show ?thesis using assms
    by (cases g) (auto simp: target_ok_def marked_ok_def service_of_def)
qed

lemma scale_down_mark:
  assumes inv: "scale_down_inv service R0 m gs" and i: "i < length gs" and g: "gs ! i = Picked mc"
  defines "obj \<equiv> current_object m mc"
  shows "scale_down_inv service R0 (mark_machine obj m) (gs[i := Marked (obj\<lparr>mc_State := MachineStateUnknown\<rparr>)])"
proof -
  note I = scale_down_invD[OF inv]
  have svc: "service_of m obj = service"
    using I(3)[OF nth_mem[OF i]] g by (simp add: target_ok_def obj_def)
  have uid: "mc_UID obj = mc_UID mc" unfolding obj_def by (rule current_object_uid[OF I(1)])
  let ?m = "mark_machine obj m" and ?g = "Marked (obj\<lparr>mc_State := MachineStateUnknown\<rparr>)"
  have "target_ok ?m service ?g"
    using svc by (simp add: target_ok_def marked_ok_def current_object_def service_of_def)
  then have targets: "\<forall>x\<in>set (gs[i := ?g]). target_ok ?m service x"
    using I(3) mark_target_ok[OF _ svc] by (auto dest!: set_update_cases)
  have count: "spent_count (gs[i := ?g]) = Suc (spent_count gs)"
    using spent_count_update[OF i, of ?g] g by simp
  have "finite (replica_set m service)" by (rule finite_replica_set[OF I(2)])
  then have "card (replica_set m service) \<le> Suc (card (replica_set m service - {mc_UID obj}))"
    by (cases "mc_UID obj \<in> replica_set m service") (simp_all add: card_Diff_singleton)
  with I(5) count have card: "card (R0 service) \<le> card (replica_set ?m service) + spent_count (gs[i := ?g])"
    by (simp add: mark_replica_set)
  have "replica_set ?m s = R0 s" if "s \<noteq> service" for s
  proof -
    have "mc_UID obj \<notin> replica_set m s" unfolding uid
      by (rule not_replica) (use svc that in \<open>simp add: obj_def\<close>)
    with I(6)[OF that] show ?thesis by (auto simp: mark_replica_set)
  qed
  with targets card I(1,2,4) show ?thesis
    by (auto simp: scale_down_inv_def mark_keyed mark_replica_set)
qed

lemma deregister_frame:
  assumes "deregister_machine nc env mc m = (r, m')"
  obtains ns where "m' = m\<lparr>networkController := ns\<rparr>"
proof -
  have "\<exists>ns. m' = m\<lparr>networkController := ns\<rparr>"
  proof (cases "machine_service env")
    case (Some e)
    with assms have "m' = m\<lparr>networkController := networkController m\<rparr>" by (simp add: deregister_machine_def)
    then show ?thesis ..
  next
    case svc: None
    show ?thesis
    proof (cases "machineNetworkMapv2 m (mc_UID mc)")
      case None
      with svc assms have "m' = m\<lparr>networkController := networkController m\<rparr>" by (simp add: deregister_machine_def)
      then show ?thesis ..
    next
      case (Some iface)
      obtain r' ns where "DeleteServiceIP nc (service_of m mc) (if_IP iface) (networkController m) = (r', ns)" by fastforce
      with svc Some assms show ?thesis
        by (cases r') (auto simp: deregister_machine_def on_controller_def go_return_def)
    qed
  qed
  then show thesis using that by blast
qed

lemma target_ok_controller [simp]: "target_ok (m\<lparr>networkController := ns\<rparr>) service g = target_ok m service g"
  by (cases g) (simp_all add: target_ok_def marked_ok_def service_of_def current_object_def)

lemma replica_set_controller [simp]: "replica_set (m\<lparr>networkController := ns\<rparr>) service = replica_set m service"
  by (simp add: replica_set_def serves_def service_of_def cong: option.case_cong)

lemma scale_down_spent:
  assumes inv: "scale_down_inv service R0 m gs" and i: "i < length gs" and g: "spent (gs ! i)" "spent g" "target_ok m service g"
  shows "scale_down_inv service R0 (m\<lparr>networkController := ns\<rparr>) (gs[i := g])"
proof -
  have "spent_count (gs[i := g]) = spent_count gs" using spent_count_update[OF i, of g] g(1,2) by simp
  then show ?thesis using inv g(3) by (auto simp: scale_down_inv_def keyed_def dest!: set_update_cases)
qed

lemma scale_down_stop:
  assumes inv: "scale_down_inv service R0 m gs" and i: "i < length gs" and g: "gs ! i = Deregistered mc iface"
    and ok: "service_ok env" and d: "stop_machine env (current_object m mc) iface m = (r, m')"
  shows "scale_down_inv service R0 m' (gs[i := Finished])"
proof -
  note I = scale_down_invD[OF inv]
  let ?obj = "current_object m mc" and ?stopped = "fst (machine_Stop env (current_object m mc))"
  have uid: "mc_UID ?obj = mc_UID mc" by (rule current_object_uid[OF I(1)])
  note fr = stop_machine_frame[OF d uid]
  have target: "service_of m ?obj = service" "\<not> is_running ?obj"
    using I(3)[OF nth_mem[OF i]] g by (simp_all add: target_ok_def marked_ok_def)
  have sv: "service_of m' x = service_of m x" for x using fr by (simp add: service_of_def)
  have stopped: "service_of m ?stopped = service" "\<not> is_running ?stopped"
    using target service_okD(7)[OF ok, of ?obj] service_okD(13)[OF ok target(2)]
    by (simp_all add: service_of_def)
  have same: "replica_set m' s = replica_set m s" for s
    by (rule stopped_replica_set[where mId = "mc_UID mc" and obj = ?stopped])
      (use fr stopped(2) not_replica[of m mc s] target(2) in blast)+
  have keyed: "keyed m'"
    by (rule stopped_keyed[where mId = "mc_UID mc" and obj = ?stopped and m = m])
      (use fr uid service_okD(3)[OF ok, of ?obj] I(1) in \<open>simp_all\<close>)
  have targets: "target_ok m' service x" if "x \<in> set gs" for x
  proof -
    have obj: "current_object m' y \<in> {current_object m y, ?stopped, y}" for y
      using fr by (cases "mc_UID y = mc_UID mc") (auto simp: current_object_def split: option.splits)
    have kept: "marked_ok m' service y" if "marked_ok m service y" for y
      using that obj[of y] stopped by (auto simp: marked_ok_def sv)
    show ?thesis
    proof (cases x)
      case (Picked y)
      with I(3)[OF that] obj[of y] stopped(1) show ?thesis by (auto simp: target_ok_def sv)
    qed (use I(3)[OF that] kept in \<open>simp_all add: target_ok_def\<close>)
  qed
  have "finite (dom (machineInstanceMapv2 m'))"
  proof (rule finite_subset)
    show "dom (machineInstanceMapv2 m') \<subseteq> insert (mc_UID mc) (dom (machineInstanceMapv2 m))"
      using fr by (auto simp: dom_def)
  qed (simp add: I(2))
  moreover have "spent_count (gs[i := Finished]) = spent_count gs"
    using spent_count_update[OF i, of Finished] g by simp
  ultimately show ?thesis
    using targets I same keyed
    by (auto simp: scale_down_inv_def target_ok_def[of _ _ Finished] dest!: set_update_cases)
qed

text \<open>Every step of a goroutine keeps the invariant.\<close>

lemma delete_step_inv:
  assumes inv: "scale_down_inv service R0 m gs" and i: "i < length gs" and ok: "service_ok env"
    and ord: "range_order (machineInstanceMapv2 m) (order_of (machineInstanceMapv2 m))"
    and step: "delete_step nc env order_of service (gs ! i) m = (r, m')"
  shows "(\<forall>g. r = Ret g \<longrightarrow> scale_down_inv service R0 m' (gs[i := g])) \<and>
    (r = Blocked \<longrightarrow> scale_down_inv service R0 m' (gs[i := Stuck]))"
proof (cases "gs ! i")
  case Ready
  with step scale_down_pick[OF inv i Ready ord] scale_down_finish_none[OF inv i Ready]
  show ?thesis by (auto simp: choose_machine_def split: sum.splits)
next
  case (Picked mc)
  with step scale_down_mark[OF inv i Picked] show ?thesis by (auto simp: Let_def)
next
  case (Marked mc)
  have t: "marked_ok m service mc" using scale_down_invD(3)[OF inv nth_mem[OF i]] Marked by (simp add: target_ok_def)
  obtain r' m1 where d: "deregister_machine nc env (current_object m mc) m = (r', m1)" by fastforce
  obtain ns where m1: "m1 = m\<lparr>networkController := ns\<rparr>" by (rule deregister_frame[OF d])
  have spent: "spent (gs ! i)" using Marked by simp
  from step Marked d have "m' = m1" "r \<noteq> Blocked \<Longrightarrow> r = Ret g \<Longrightarrow> spent g \<and> target_ok m service g" for g
    using t by (cases r'; auto simp: go_return_def target_ok_def split: sum.splits)+
  with scale_down_spent[OF inv i spent] show ?thesis by (auto simp: m1 target_ok_def)
next
  case (Deregistered mc iface)
  obtain e m1 where d: "stop_machine env (current_object m mc) iface m = (e, m1)" by fastforce
  have "e \<noteq> Blocked" using stop_machine_outcome[OF d] by simp
  with step Deregistered d scale_down_stop[OF inv i Deregistered ok d] show ?thesis
    by (cases e) (auto simp: go_return_def)
next
  case (Requested mreq)
  with step inv list_update_id[of gs i] show ?thesis by (auto simp: go_return_def)
next
  case Stuck
  with step inv list_update_id[of gs i] show ?thesis by (auto simp: go_return_def)
next
  case Finished
  with step inv list_update_id[of gs i] show ?thesis by (auto simp: go_return_def)
qed

lemma scale_down_inv_step:
  assumes "scale_down_step nc answers service (m, gs) (m', gs')" and "scale_down_inv service R0 m gs"
    and "\<forall>env\<in>answers. service_ok env"
  shows "scale_down_inv service R0 m' gs'"
  using assms(1)
proof (cases rule: scale_down_step.cases)
  case (move i env order_of g)
  with delete_step_inv[OF assms(2) move(2) _ move(4,5)] assms(3) show ?thesis by simp
next
  case (block i env order_of)
  with delete_step_inv[OF assms(2) block(2) _ block(4,5)] assms(3) show ?thesis by simp
qed

lemma scale_down_step_length:
  "scale_down_step nc answers service (m, gs) (m', gs') \<Longrightarrow> length gs' = length gs"
  by (erule scale_down_stepE) (simp_all only: length_list_update)

lemma scale_down_inv_steps:
  assumes "(scale_down_step nc answers service)\<^sup>*\<^sup>* (m, gs) (m', gs')" and "scale_down_inv service R0 m gs"
    and "\<forall>env\<in>answers. service_ok env"
  shows "scale_down_inv service R0 m' gs'"
  using assms(1,2)
proof (induction rule: rtranclp_induct2)
  case refl
  then show ?case .
next
  case (step m1 gs1 m2 gs2)
  show ?case by (rule scale_down_inv_step[OF step(2) step(3)[OF step(4)] assms(3)])
qed

lemma scale_down_inv_init:
  assumes "keyed m" and "finite (dom (machineInstanceMapv2 m))"
  shows "scale_down_inv service (replica_set m) m (replicate k Ready)"
  using assms by (simp add: scale_down_inv_def target_ok_def)

text \<open>
  C3: a scale-down never goes below its target, however its goroutines are interleaved: started for
  the difference to the target, at every moment of every schedule at least the target number of
  replicas is left, they are replicas from before, and the other services keep all of theirs.
\<close>

theorem scale_down_keeps_target:
  assumes steps: "(scale_down_step nc answers service)\<^sup>*\<^sup>*
      (m, replicate (card (replica_set m service) - target) Ready) (m', gs')"
    and "keyed m" and "finite (dom (machineInstanceMapv2 m))" and "\<forall>env\<in>answers. service_ok env"
    and le: "target \<le> card (replica_set m service)"
  shows "target \<le> card (replica_set m' service) \<and> replica_set m' service \<subseteq> replica_set m service \<and>
    (\<forall>svc. svc \<noteq> service \<longrightarrow> replica_set m' svc = replica_set m svc)"
proof -
  note inv = scale_down_inv_steps[OF steps scale_down_inv_init[OF assms(2,3)] assms(4)]
  have "length gs' = card (replica_set m service) - target"
    using steps
  proof (induction rule: rtranclp_induct2)
    case refl
    then show ?case by simp
  next
    case (step m1 gs1 m2 gs2)
    from scale_down_step_length[OF step(2)] step(3) show ?case by simp
  qed
  with spent_count_le[of gs'] scale_down_invD(4,5,6)[OF inv] le show ?thesis by auto
qed

theorem scale_down_keeps_target_witness:
  "Suc 0 \<le> card (replica_set (mark_machine (sample_machine ''uid1'') (sample_machines ())) ''f'')"
proof -
  let ?step = "scale_down_step sample_nc {sample_menv} ''f''" and ?m = "sample_machines ()"
  let ?mc = "sample_machine ''uid1''"
  have obj: "current_object ?m ?mc = ?mc"
    by (simp add: current_object_def sample_machines_def sample_machine_def)
  have "?step (?m, [Ready]) (?m, [Ready][0 := Picked ?mc])"
    by (rule move[where order_of = "\<lambda>_. [''uid1'', ''uid2'']" and env = sample_menv, OF _ _ sample_order])
      (simp_all add: choose_machine_def sample_pick)
  moreover have "?step (?m, [Picked ?mc])
      (mark_machine ?mc ?m, [Picked ?mc][0 := Marked (?mc\<lparr>mc_State := MachineStateUnknown\<rparr>)])"
    by (rule move[where order_of = "\<lambda>_. [''uid1'', ''uid2'']" and env = sample_menv, OF _ _ sample_order])
      (simp_all add: Let_def obj del: mark_machine_fields)
  ultimately have "?step\<^sup>*\<^sup>* (?m, replicate (card (replica_set ?m ''f'') - 1) Ready)
      (mark_machine ?mc ?m, [Marked (?mc\<lparr>mc_State := MachineStateUnknown\<rparr>)])"
    by (simp add: converse_rtranclp_into_rtranclp)
  from scale_down_keeps_target[OF this] show ?thesis by simp
qed

lemma all_spent_steps:
  assumes "(scale_down_step nc answers service)\<^sup>*\<^sup>* (m, gs) (m', gs')" and "\<forall>g\<in>set gs. spent g"
    and "scale_down_inv service R0 m gs" and ok: "\<forall>env\<in>answers. service_ok env"
  shows "replica_set m' service = replica_set m service"
proof -
  have "replica_set m' service = replica_set m service \<and> (\<forall>g\<in>set gs'. spent g) \<and> scale_down_inv service R0 m' gs'"
    using assms(1)
  proof (induction rule: rtranclp_induct2)
    case refl
    then show ?case using assms(2,3) by simp
  next
    case (step m1 gs1 m2 gs2)
    then have spent1: "\<forall>g\<in>set gs1. spent g" and inv1: "scale_down_inv service R0 m1 gs1" by simp_all
    have inv2: "scale_down_inv service R0 m2 gs2" by (rule scale_down_inv_step[OF step(2) inv1 ok])
    have one: "replica_set m2 service = replica_set m1 service \<and> (\<forall>g. r = Ret g \<longrightarrow> spent g)"
      if i: "i < length gs1" and env: "env \<in> answers" and run: "delete_step nc env order_of service (gs1 ! i) m1 = (r, m2)"
      for i env order_of r
    proof (cases "gs1 ! i")
      case (Marked mc)
      obtain r' m' where d: "deregister_machine nc env (current_object m1 mc) m1 = (r', m')" by fastforce
      with run Marked have m2: "m2 = m'" and "r = Ret g \<Longrightarrow> spent g" for g
        by (cases r'; auto simp: go_return_def split: sum.splits)+
      then show ?thesis by (auto intro: deregister_frame[OF d])
    next
      case (Deregistered mc iface)
      obtain e m' where d: "stop_machine env (current_object m1 mc) iface m1 = (e, m')" by fastforce
      with run Deregistered have m2: "m2 = m'" and "r = Ret g \<Longrightarrow> spent g" for g
        by (cases e; auto simp: go_return_def)+
      moreover have "replica_set m' service = replica_set m1 service"
      proof (rule stopped_replica_set[where mId = "mc_UID mc" and obj = "fst (machine_Stop env (current_object m1 mc))"])
        have uid: "mc_UID (current_object m1 mc) = mc_UID mc" by (rule current_object_uid[OF scale_down_invD(1)[OF inv1]])
        note fr = stop_machine_frame[OF d uid]
        have t: "marked_ok m1 service mc"
          using scale_down_invD(3)[OF inv1 nth_mem[OF i]] Deregistered by (simp add: target_ok_def)
        show "\<not> is_running (fst (machine_Stop env (current_object m1 mc)))"
          using t service_okD(13)[of env] ok env by (simp add: marked_ok_def)
        show "mc_UID mc \<notin> replica_set m1 service" using t by (intro not_replica) (simp add: marked_ok_def)
      qed (use stop_machine_frame[OF d current_object_uid[OF scale_down_invD(1)[OF inv1]]] in blast)+
      ultimately show ?thesis by simp
    qed (use run spent1 nth_mem[OF i] in \<open>auto simp: go_return_def\<close>)
    from step(2) have "replica_set m2 service = replica_set m1 service \<and> (\<forall>g\<in>set gs2. spent g)"
    proof (cases rule: scale_down_step.cases)
      case (move i env order_of g)
      with one[OF move(2,3,5)] spent1 show ?thesis by (auto dest!: set_update_cases)
    next
      case (block i env order_of)
      with one[OF block(2,3,5)] spent1 show ?thesis by (auto dest!: set_update_cases)
    qed
    with step inv2 show ?case by simp
  qed
  then show ?thesis by simp
qed

text \<open>
  A scale-down may also stop too few machines: two goroutines can choose the same machine, and
  from then on, whatever follows, one replica less is running where two were to be stopped.
\<close>

theorem racing_goroutines_stop_one_machine:
  assumes keyed: "keyed m" and fin: "finite (dom (machineInstanceMapv2 m))"
    and ok: "\<forall>env\<in>answers. service_ok env" and some: "env \<in> answers"
    and ord: "range_order (machineInstanceMapv2 m) order" and chosen: "getFunctionMachine order service m = Inr mc"
  shows "\<exists>m1 gs1. (scale_down_step nc answers service)\<^sup>*\<^sup>* (m, [Ready, Ready]) (m1, gs1) \<and>
    (\<forall>m' gs'. (scale_down_step nc answers service)\<^sup>*\<^sup>* (m1, gs1) (m', gs') \<longrightarrow>
       Suc (card (replica_set m' service)) = card (replica_set m service))"
proof -
  let ?step = "scale_down_step nc answers service" and ?u = "\<lambda>x. x\<lparr>mc_State := MachineStateUnknown\<rparr>"
  from ord chosen obtain key where k: "machineInstanceMapv2 m key = Some mc" "key \<in> replica_set m service"
    by (cases rule: getFunctionMachine_cases[of m order service]) auto
  have uid: "mc_UID mc = key" by (rule keyedD[OF keyed k(1)])
  have obj: "current_object m mc = mc" by (simp add: current_object_def uid k(1))
  let ?m1 = "mark_machine mc m" and ?m2 = "mark_machine (?u mc) (mark_machine mc m)"
  have obj1: "current_object ?m1 mc = ?u mc" by (simp add: current_object_def)
  have fin1: "finite (dom (machineInstanceMapv2 ?m1))" using fin by simp
  have ords: "range_order (machineInstanceMapv2 x) (if machineInstanceMapv2 x = machineInstanceMapv2 m then order
      else sorted_list_of_set (dom (machineInstanceMapv2 x)))" if "finite (dom (machineInstanceMapv2 x))" for x :: "'a MachineStore"
    using that ord by (simp add: range_order_def)
  let ?ord = "\<lambda>mp. if mp = machineInstanceMapv2 m then order else sorted_list_of_set (dom mp)"
  have s1: "?step (m, [Ready, Ready]) (m, [Picked mc, Ready])"
    using move[of 0 "[Ready, Ready]" env answers m ?ord nc service "Picked mc" m, OF _ some ords[OF fin]]
    by (simp add: choose_machine_def chosen)
  have s2: "?step (m, [Picked mc, Ready]) (m, [Picked mc, Picked mc])"
    using move[of 1 "[Picked mc, Ready]" env answers m ?ord nc service "Picked mc" m, OF _ some ords[OF fin]]
    by (simp add: choose_machine_def chosen)
  have s3: "?step (m, [Picked mc, Picked mc]) (?m1, [Marked (?u mc), Picked mc])"
    using move[of 0 "[Picked mc, Picked mc]" env answers m ?ord nc service "Marked (?u mc)" ?m1, OF _ some ords[OF fin]]
    by (simp add: Let_def obj)
  have s4: "?step (?m1, [Marked (?u mc), Picked mc]) (?m2, [Marked (?u mc), Marked (?u mc)])"
    using move[of 1 "[Marked (?u mc), Picked mc]" env answers ?m1 ?ord nc service "Marked (?u mc)" ?m2, OF _ some ords[OF fin1]]
    by (simp add: Let_def obj1 del: mark_machine_fields)
  have run: "?step\<^sup>*\<^sup>* (m, [Ready, Ready]) (?m2, [Marked (?u mc), Marked (?u mc)])"
    by (rule converse_rtranclp_into_rtranclp[OF s1 converse_rtranclp_into_rtranclp[OF s2
          converse_rtranclp_into_rtranclp[OF s3 r_into_rtranclp[of ?step, OF s4]]]])
  have "[Ready, Ready] = replicate 2 Ready" by (simp add: numeral_2_eq_2)
  then have inv: "scale_down_inv service (replica_set m) ?m2 [Marked (?u mc), Marked (?u mc)]"
    using scale_down_inv_steps[OF run _ ok] scale_down_inv_init[OF keyed fin, of service 2] by simp
  have "Suc (card (replica_set ?m2 service)) = card (replica_set m service)"
    using card_Suc_Diff1[OF finite_replica_set[OF fin, of service] k(2)] uid
    by (simp add: mark_replica_set)
  moreover have "replica_set m' service = replica_set ?m2 service"
    if "?step\<^sup>*\<^sup>* (?m2, [Marked (?u mc), Marked (?u mc)]) (m', gs')" for m' gs'
    by (rule all_spent_steps[OF that _ inv ok]) simp
  ultimately have "\<forall>m' gs'. ?step\<^sup>*\<^sup>* (?m2, [Marked (?u mc), Marked (?u mc)]) (m', gs') \<longrightarrow>
      Suc (card (replica_set m' service)) = card (replica_set m service)"
    by simp
  with run show ?thesis by blast
qed

theorem racing_goroutines_stop_one_machine_witness:
  "\<exists>m1 gs1. (scale_down_step sample_nc {sample_menv} ''f'')\<^sup>*\<^sup>*
      (sample_machines (), [Ready, Ready]) (m1, gs1) \<and> card (replica_set m1 ''f'') = 1"
proof -
  have "finite (dom (machineInstanceMapv2 (sample_machines ())))" and "\<forall>env\<in>{sample_menv}. service_ok env" by simp_all
  from racing_goroutines_stop_one_machine[OF sample_machines_keyed this singletonI sample_order sample_pick, of sample_nc]
  obtain m1 gs1 where run: "(scale_down_step sample_nc {sample_menv} ''f'')\<^sup>*\<^sup>* (sample_machines (), [Ready, Ready]) (m1, gs1)"
    and "\<forall>m' gs'. (scale_down_step sample_nc {sample_menv} ''f'')\<^sup>*\<^sup>* (m1, gs1) (m', gs') \<longrightarrow>
       Suc (card (replica_set m' ''f'')) = card (replica_set (sample_machines ()) ''f'')"
    by blast
  from this(2) have "(scale_down_step sample_nc {sample_menv} ''f'')\<^sup>*\<^sup>* (m1, gs1) (m1, gs1) \<longrightarrow>
      Suc (card (replica_set m1 ''f'')) = card (replica_set (sample_machines ()) ''f'')"
    by blast
  then have "card (replica_set m1 ''f'') = 1" by simp
  with run show ?thesis by blast
qed

section \<open>Schedules and steps\<close>

text \<open>An order of visits that \<open>Range\<close> can choose, whatever the map holds.\<close>

definition valid_order :: "range_of \<Rightarrow> bool" where
  "valid_order order_of \<longleftrightarrow> (\<forall>mp. finite (dom mp) \<longrightarrow> range_order mp (order_of mp))"

lemma sorted_order_valid: "valid_order (\<lambda>mp. sorted_list_of_set (dom mp))"
  by (simp add: valid_order_def range_order_def)

text \<open>What a schedule does is a sequence of steps of the relation, unless the process ends.\<close>

lemma interleave_steps:
  assumes envs: "\<forall>i. envs i \<in> answers \<and> valid_order (orders i)" and ok: "\<forall>env\<in>answers. service_ok env"
    and run: "interleave (\<lambda>i. delete_step nc (envs i) (orders i) service) sched gs m = (Ret gs', m')"
    and inv: "scale_down_inv service R0 m gs"
  shows "(scale_down_step nc answers service)\<^sup>*\<^sup>* (m, gs) (m', gs')"
  using run inv
proof (induction sched arbitrary: gs m)
  case Nil
  then show ?case by simp
next
  case (Cons i sched)
  show ?case
  proof (cases "i < length gs")
    case False
    with Cons show ?thesis by simp
  next
    case True
    have env: "envs i \<in> answers" and ord: "range_order (machineInstanceMapv2 m) (orders i (machineInstanceMapv2 m))"
      using envs scale_down_invD(2)[OF Cons.prems(2)] by (auto simp: valid_order_def)
    have sok: "service_ok (envs i)" using ok env by blast
    obtain r m1 where r: "delete_step nc (envs i) (orders i) service (gs ! i) m = (r, m1)" by fastforce
    note inv1 = delete_step_inv[OF Cons.prems(2) True sok ord r]
    show ?thesis
    proof (cases r)
      case (Ret g)
      have "(scale_down_step nc answers service)\<^sup>*\<^sup>* (m1, gs[i := g]) (m', gs')"
        by (rule Cons.IH) (use Cons.prems(1) True r Ret inv1 in simp_all)
      with move[OF True env ord r[unfolded Ret]] show ?thesis by (rule converse_rtranclp_into_rtranclp)
    next
      case (Panic msg)
      with Cons.prems(1) True r show ?thesis by simp
    next
      case Blocked
      have "(scale_down_step nc answers service)\<^sup>*\<^sup>* (m1, gs[i := Stuck]) (m', gs')"
        by (rule Cons.IH) (use Cons.prems(1) True r Blocked inv1 in simp_all)
      with block[OF True env ord r[unfolded Blocked]] show ?thesis by (rule converse_rtranclp_into_rtranclp)
    qed
  qed
qed

text \<open>
  A schedule in which no step comes between the choice of a goroutine and its mark; \<open>begun\<close> are the
  goroutines that have made both.
\<close>

fun choices_kept :: "nat list \<Rightarrow> nat list \<Rightarrow> bool" where
  "choices_kept begun [] = True"
| "choices_kept begun [i] = (i \<in> set begun)"
| "choices_kept begun (i # j # sched) =
     (if i \<in> set begun then choices_kept begun (j # sched) else j = i \<and> choices_kept (i # begun) sched)"

lemma choices_kept_begun: "i \<in> set begun \<Longrightarrow> choices_kept begun (i # sched) = choices_kept begun sched"
  by (cases sched) simp_all

lemma choices_kept_fours: "choices_kept begun (concat (map (replicate 4) ks))"
proof (induction ks arbitrary: begun)
  case Nil
  then show ?case by simp
next
  case (Cons i ks)
  then show ?case by (cases "i \<in> set begun") (simp_all add: numeral_eq_Suc choices_kept_begun)
qed

lemma choices_kept_remaining: "choices_kept begun sched \<Longrightarrow> choices_kept begun (sched @ remaining_steps k)"
proof (induction begun sched rule: choices_kept.induct)
  case (1 begun)
  then show ?case by (simp add: remaining_steps_def choices_kept_fours)
next
  case (2 begun i)
  then show ?case by (simp add: choices_kept_begun remaining_steps_def choices_kept_fours)
next
  case (3 begun i j sched)
  then show ?case by (auto split: if_splits)
qed

lemma interleave_kept:
  assumes "J begun m gs" and "choices_kept begun sched"
    and later: "\<And>begun m gs i. J begun m gs \<Longrightarrow> i \<in> set begun \<Longrightarrow> i < length gs \<Longrightarrow>
      \<exists>g m'. step i (gs ! i) m = (Ret g, m') \<and> J begun m' (gs[i := g])"
    and first: "\<And>begun m gs i. J begun m gs \<Longrightarrow> i \<notin> set begun \<Longrightarrow> i < length gs \<Longrightarrow>
      \<exists>g1 m1 g2 m2. step i (gs ! i) m = (Ret g1, m1) \<and> step i g1 m1 = (Ret g2, m2) \<and> J (i # begun) m2 (gs[i := g2])"
    and outside: "\<And>begun m gs i. J begun m gs \<Longrightarrow> \<not> i < length gs \<Longrightarrow> J (i # begun) m gs"
  shows "\<exists>gs' m' begun'. interleave step sched gs m = (Ret gs', m') \<and> J begun' m' gs'"
  using assms(1,2)
proof (induction begun sched arbitrary: m gs rule: choices_kept.induct)
  case (1 begun)
  then show ?case by auto
next
  case (2 begun i)
  then show ?case using later[of begun m gs i] by (cases "i < length gs") auto
next
  case (3 begun i j sched)
  show ?case
  proof (cases "i \<in> set begun")
    case True
    show ?thesis
    proof (cases "i < length gs")
      case len: True
      from later[OF 3(3) True len] obtain g m1 where "step i (gs ! i) m = (Ret g, m1)" "J begun m1 (gs[i := g])" by blast
      with 3(1)[OF True, of m1 "gs[i := g]"] 3(4) True len show ?thesis by simp
    next
      case False
      with 3(1)[OF True, of m gs] 3(3,4) True show ?thesis by simp
    qed
  next
    case new: False
    then have j: "j = i" "choices_kept (i # begun) sched" using 3(4) by simp_all
    show ?thesis
    proof (cases "i < length gs")
      case len: True
      from first[OF 3(3) new len] obtain g1 m1 g2 m2 where
        "step i (gs ! i) m = (Ret g1, m1)" "step i g1 m1 = (Ret g2, m2)" "J (i # begun) m2 (gs[i := g2])" by blast
      with 3(2)[OF new, of m2 "gs[i := g2]"] j len show ?thesis by simp
    next
      case False
      with 3(2)[OF new, of m gs] outside[OF 3(3) False] j show ?thesis by simp
    qed
  qed
qed

text \<open>A goroutine that runs alone is \<open>DeleteMachine\<close>, or \<open>CloneMachine\<close>.\<close>

definition alone :: "(go_error option) outcome \<Rightarrow> goroutine list outcome" where
  "alone r = (case r of Ret e \<Rightarrow> Ret [Finished] | Panic msg \<Rightarrow> Panic msg | Blocked \<Rightarrow> Ret [Stuck])"

lemma chosen_current:
  assumes "keyed m" and "range_order (machineInstanceMapv2 m) ks" and "getFunctionMachine ks service m = Inr mc"
  shows "current_object m mc = mc"
proof -
  from assms(2,3) obtain key where key: "machineInstanceMapv2 m key = Some mc"
    by (cases rule: getFunctionMachine_cases[of m ks service]) auto
  with keyedD[OF assms(1) key] show ?thesis by (simp add: current_object_def)
qed

lemma delete_alone:
  assumes keyed: "keyed m" and ord: "range_order (machineInstanceMapv2 m) (order_of (machineInstanceMapv2 m))"
  shows "interleave (\<lambda>i. delete_step nc env order_of service) [0, 0, 0, 0] [Ready] m =
    (case DeleteMachine nc env order_of service m of (r, m') \<Rightarrow> (alone r, m'))"
proof (cases "getFunctionMachine (order_of (machineInstanceMapv2 m)) service m")
  case (Inl e)
  then show ?thesis by (simp add: choose_machine_def DeleteMachine_def go_return_def alone_def)
next
  case (Inr mc)
  let ?u = "mc\<lparr>mc_State := MachineStateUnknown\<rparr>" and ?m = "mark_machine mc m"
  have obj: "current_object m mc = mc" by (rule chosen_current[OF keyed ord Inr])
  have obj1: "current_object (?m\<lparr>networkController := ns\<rparr>) ?u = ?u" for ns by (simp add: current_object_def)
  have obj2: "current_object ?m ?u = ?u" by (simp add: current_object_def)
  obtain r ma where d: "deregister_machine nc env ?u ?m = (r, ma)" by fastforce
  obtain ns where ma: "ma = ?m\<lparr>networkController := ns\<rparr>" by (rule deregister_frame[OF d])
  have run: "DeleteMachine nc env order_of service m = go_bind (deregister_machine nc env ?u) (\<lambda>r. case r of
         Inl e \<Rightarrow> go_return (Some e)
       | Inr iface \<Rightarrow> stop_machine env ?u iface) ?m"
    using Inr by (simp add: DeleteMachine_def destroyMachine_steps)
  show ?thesis
  proof (cases r)
    case (Ret x)
    show ?thesis
    proof (cases x)
      case (Inl e)
      then show ?thesis using Ret d by (simp add: choose_machine_def Inr Let_def obj obj2 run go_return_def alone_def)
    next
      case st: (Inr iface)
      obtain e mb where s: "stop_machine env ?u iface ma = (e, mb)" by fastforce
      have "e \<noteq> Blocked" using stop_machine_outcome[OF s] by simp
      then show ?thesis using Ret d st s obj1[of ns]
        by (cases e) (simp_all add: choose_machine_def Inr Let_def obj obj2 run go_return_def alone_def flip: ma)
    qed
  next
    case (Panic msg)
    then show ?thesis using d by (simp add: choose_machine_def Inr Let_def obj obj2 run go_return_def alone_def)
  next
    case Blocked
    then show ?thesis using d by (simp add: choose_machine_def Inr Let_def obj obj2 run go_return_def alone_def)
  qed
qed

lemma clone_alone:
  assumes keyed: "keyed m" and ord: "range_order (machineInstanceMapv2 m) (order_of (machineInstanceMapv2 m))"
  shows "interleave (\<lambda>i. clone_step env order_of service) [0, 0, 0] [Ready] m =
    (case CloneMachine env order_of service m of (r, m') \<Rightarrow> (alone r, m'))"
proof (cases "getFunctionMachine (order_of (machineInstanceMapv2 m)) service m")
  case (Inl e)
  then show ?thesis by (simp add: choose_machine_def CloneMachine_def go_return_def alone_def)
next
  case (Inr mc)
  have obj: "current_object m mc = mc" by (rule chosen_current[OF keyed ord Inr])
  obtain r m' where c: "createMachine env (clone_request m mc) m = (r, m')" by fastforce
  then show ?thesis
    using Inr by (cases r) (simp_all add: choose_machine_def CloneMachine_def obj go_return_def alone_def)
qed

section \<open>Scaling up\<close>

text \<open>Libraries with which a creation succeeds and its machine runs.\<close>

definition creation_works :: "machine_env \<Rightarrow> bool" where
  "creation_works env \<longleftrightarrow> service_ok env \<and> (\<forall>mreq. calls_succeed env mreq) \<and>
     (\<forall>mc. is_running (fst (machine_Start env mc)))"

definition can_clone :: "string \<Rightarrow> 'n MachineStore \<Rightarrow> bool" where
  "can_clone service m \<longleftrightarrow> labels_wf m \<and> \<not> ms_lock m \<and> replica_set m service \<noteq> {}"

text \<open>A request that clones a machine of the service, which other clones may have changed since.\<close>

definition clones_service :: "'n MachineStore \<Rightarrow> string \<Rightarrow> MachineRequest \<Rightarrow> bool" where
  "clones_service m service mreq \<longleftrightarrow> mr_Service mreq = service \<and>
     (\<exists>key src. machineInstanceMapv2 m key = Some src \<and> service_of m src = service \<and>
        mr_Annotations mreq = Some (mc_Annotations src) \<and> mr_Labels mreq = Some (mc_Annotations src))"

lemma request_adds_replica:
  assumes can: "can_clone service m" and works: "creation_works env" and req: "clones_service m service mreq"
    and new: "uuid_NewUUID env \<notin> dom (machineInstanceMapv2 m)"
  obtains m' mc ip where "createMachine env mreq m = (Ret None, m')" and "can_clone service m'"
    and "machineInstanceMapv2 m' = (machineInstanceMapv2 m)(uuid_NewUUID env \<mapsto> mc)"
    and "\<And>k x. machineInstanceMapv2 m k = Some x \<Longrightarrow> service_of m' x = service_of m x"
    and "replica_set m' service = insert (uuid_NewUUID env) (replica_set m service)"
    and "\<And>svc. svc \<noteq> service \<Longrightarrow> replica_set m' svc = replica_set m svc"
    and "pending m' = pending m @ [(service, ip)]" and "networkController m' = networkController m"
proof -
  have wf: "labels_wf m" and free: "\<not> ms_lock m" using can by (simp_all add: can_clone_def)
  from req obtain key src where svc: "mr_Service mreq = service" and src: "machineInstanceMapv2 m key = Some src"
      "service_of m src = service"
    and given: "mr_Annotations mreq = Some (mc_Annotations src)" "mr_Labels mreq = Some (mc_Annotations src)"
    by (auto simp: clones_service_def)
  have calls: "calls_succeed env mreq" and ok: "service_ok env" using works by (simp_all add: creation_works_def)
  show thesis
  proof (rule request_runs[OF calls ok free given])
    fix m' mc layer iface
    assume run: "createMachine env mreq m = (Ret None, m')"
      and mc: "mc_UID mc = uuid_NewUUID env" "mc_Labels mc = mc_Annotations src" "mc_Annotations mc = mc_Annotations src"
      and heap: "map_heap m' = (map_heap m)(mc_Annotations src := request_labels mreq layer (map_heap m (mc_Annotations src)))"
      and inst: "machineInstanceMapv2 m' = (machineInstanceMapv2 m)(uuid_NewUUID env \<mapsto> mc)"
      and rest: "\<not> ms_lock m'" "networkController m' = networkController m"
        "pending m' = pending m @ [(mr_Service mreq, if_IP iface)]"
      and start: "\<exists>x. mc = fst (machine_Start env x)"
    have lbl: "request_labels mreq layer (map_heap m (mc_Annotations src)) service_label = Some (service_of m src)"
      by (simp add: svc src)
    note st = clone_store[OF wf src(1) new mc heap lbl inst]
    have running: "is_running mc" using start works by (auto simp: creation_works_def)
    show thesis
    proof (rule that[OF run _ inst])
      show reps: "replica_set m' service = insert (uuid_NewUUID env) (replica_set m service)"
        using st(3)[of service] running src(2) by simp
      then show "can_clone service m'" using st(1) rest(1) by (simp add: can_clone_def)
      show "replica_set m' svc = replica_set m svc" if "svc \<noteq> service" for svc
        using st(3)[of svc] that src(2) by simp
      show "service_of m' x = service_of m x" if "machineInstanceMapv2 m k = Some x" for k x
        by (rule clone_service_of[OF wf src(1) heap lbl that])
      show "pending m' = pending m @ [(service, if_IP iface)]" using rest(3) svc by simp
    qed (rule rest(2))
  qed
qed

text \<open>
  The invariant of a scale-up: the replicas are those from before and one for each goroutine that ended,
  and what the others hold is a machine of the service or a request to clone one.
\<close>

definition source_ok :: "'n MachineStore \<Rightarrow> string \<Rightarrow> goroutine \<Rightarrow> bool" where
  "source_ok m service g = (case g of
      Picked mc \<Rightarrow> \<exists>key. machineInstanceMapv2 m key = Some mc \<and> service_of m mc = service
    | Requested mreq \<Rightarrow> clones_service m service mreq
    | _ \<Rightarrow> g = Ready \<or> g = Finished)"

definition created_uids :: "(nat \<Rightarrow> machine_env) \<Rightarrow> goroutine list \<Rightarrow> string set" where
  "created_uids envs gs = {uuid_NewUUID (envs i) | i. i < length gs \<and> gs ! i = Finished}"

definition ended_count :: "goroutine list \<Rightarrow> nat" where
  "ended_count gs = length (filter (\<lambda>g. g = Finished) gs)"

definition scale_up_inv ::
  "string \<Rightarrow> (nat \<Rightarrow> machine_env) \<Rightarrow> 'n MachineStore \<Rightarrow> nat \<Rightarrow> 'n MachineStore \<Rightarrow> goroutine list \<Rightarrow> bool" where
  "scale_up_inv service envs m0 k m gs \<longleftrightarrow> length gs = k \<and>
     can_clone service m \<and> (\<forall>g\<in>set gs. source_ok m service g) \<and>
     replica_set m service = replica_set m0 service \<union> created_uids envs gs \<and>
     (\<forall>svc. svc \<noteq> service \<longrightarrow> replica_set m svc = replica_set m0 svc) \<and>
     dom (machineInstanceMapv2 m) = dom (machineInstanceMapv2 m0) \<union> created_uids envs gs \<and>
     length (pending m) = length (pending m0) + ended_count gs \<and> networkController m = networkController m0"

lemma created_update:
  assumes "i < length gs" and "gs ! i \<noteq> Finished"
  shows "created_uids envs (gs[i := g]) = created_uids envs gs \<union> (if g = Finished then {uuid_NewUUID (envs i)} else {})"
  using assms by (auto simp: created_uids_def nth_list_update)

lemma ended_count_update:
  assumes "i < length gs" and "gs ! i \<noteq> Finished"
  shows "ended_count (gs[i := g]) = ended_count gs + (if g = Finished then 1 else 0)"
  using assms
proof (induction gs arbitrary: i)
  case Nil
  then show ?case by simp
next
  case (Cons x gs)
  then show ?case by (cases i) (auto simp: ended_count_def)
qed

lemma clone_step_inv:
  assumes inv: "scale_up_inv service envs m0 k m gs" and i: "i < length gs"
    and works: "\<forall>i < k. creation_works (envs i) \<and> valid_order (orders i) \<and> uuid_NewUUID (envs i) \<notin> dom (machineInstanceMapv2 m0)"
    and fresh: "inj_on (\<lambda>i. uuid_NewUUID (envs i)) {..<k}"
  shows "\<exists>g m'. clone_step (envs i) (orders i) service (gs ! i) m = (Ret g, m') \<and> scale_up_inv service envs m0 k m' (gs[i := g])"
proof -
  have ik: "i < k" and can: "can_clone service m" and src: "source_ok m service (gs ! i)"
    using inv i by (auto simp: scale_up_inv_def)
  have wf: "labels_wf m" and some: "replica_set m service \<noteq> {}" using can by (simp_all add: can_clone_def)
  have ord: "range_order (machineInstanceMapv2 m) (orders i (machineInstanceMapv2 m))"
    using works ik labels_wfD(2)[OF wf] by (simp add: valid_order_def)
  have same: "scale_up_inv service envs m0 k m (gs[i := g])" if "gs ! i \<noteq> Finished" "g \<noteq> Finished" "source_ok m service g" for g
    using inv created_update[OF i that(1), of envs g] ended_count_update[OF i that(1), of g] that(2,3)
    by (auto simp: scale_up_inv_def dest!: set_update_cases)
  show ?thesis
  proof (cases "gs ! i")
    case Ready
    from ord some obtain key mc where mc: "machineInstanceMapv2 m key = Some mc" "service_of m mc = service"
        "getFunctionMachine (orders i (machineInstanceMapv2 m)) service m = Inr mc"
      by (cases rule: getFunctionMachine_cases[of m "orders i (machineInstanceMapv2 m)" service]) auto
    have "source_ok m service (Picked mc)" using mc(1,2) by (auto simp: source_ok_def)
    with same[of "Picked mc"] Ready mc(3) show ?thesis by (simp add: choose_machine_def)
  next
    case (Picked mc)
    then obtain key where key: "machineInstanceMapv2 m key = Some mc" "service_of m mc = service"
      using src by (auto simp: source_ok_def)
    then have "current_object m mc = mc" using keyedD[OF labels_wfD(1)[OF wf]] by (simp add: current_object_def)
    moreover have "source_ok m service (Requested (clone_request m mc))"
      using key by (auto simp: source_ok_def clones_service_def clone_request_def Let_def service_of_def)
    ultimately show ?thesis using same[of "Requested (clone_request m mc)"] Picked by simp
  next
    case (Requested mreq)
    have req: "clones_service m service mreq" using src Requested by (simp add: source_ok_def)
    have "uuid_NewUUID (envs i) \<notin> created_uids envs gs"
    proof
      assume "uuid_NewUUID (envs i) \<in> created_uids envs gs"
      then obtain j where j: "uuid_NewUUID (envs i) = uuid_NewUUID (envs j)" "j < length gs" "gs ! j = Finished"
        by (auto simp: created_uids_def)
      moreover have "j < k" using j(2) inv by (simp add: scale_up_inv_def)
      ultimately have "i = j" using inj_onD[OF fresh, of i j] ik by simp
      with j(3) Requested show False by simp
    qed
    then have new: "uuid_NewUUID (envs i) \<notin> dom (machineInstanceMapv2 m)"
      using inv works ik by (simp add: scale_up_inv_def)
    have wi: "creation_works (envs i)" using works ik by simp
    show ?thesis
    proof (rule request_adds_replica[OF can wi req new])
      fix m' mc ip
      assume run: "createMachine (envs i) mreq m = (Ret None, m')" and can': "can_clone service m'"
        and inst: "machineInstanceMapv2 m' = (machineInstanceMapv2 m)(uuid_NewUUID (envs i) \<mapsto> mc)"
        and sv: "\<And>k x. machineInstanceMapv2 m k = Some x \<Longrightarrow> service_of m' x = service_of m x"
        and reps: "replica_set m' service = insert (uuid_NewUUID (envs i)) (replica_set m service)"
          "\<And>svc. svc \<noteq> service \<Longrightarrow> replica_set m' svc = replica_set m svc"
        and rest: "pending m' = pending m @ [(service, ip)]" "networkController m' = networkController m"
      have kept: "machineInstanceMapv2 m' key = Some x" if "machineInstanceMapv2 m key = Some x" for key x
        using that new by (auto simp: inst)
      have "source_ok m' service g" if "source_ok m service g" for g
        using that kept sv by (cases g) (fastforce simp: source_ok_def clones_service_def)+
      then have "scale_up_inv service envs m0 k m' (gs[i := Finished])"
        using inv can' reps rest inst Requested i created_update[OF i, of envs Finished] ended_count_update[OF i, of Finished]
        by (auto simp: scale_up_inv_def source_ok_def[of _ _ Finished] dest!: set_update_cases)
      with run Requested show ?thesis by (simp add: go_return_def)
    qed
  next
    case Finished
    with inv list_update_id[of gs i] show ?thesis by (simp add: go_return_def)
  qed (use src in \<open>simp_all add: source_ok_def\<close>)
qed

lemma GetReplicas_unat:
  assumes "range_order (machineInstanceMapv2 m) order" and "card (replica_set m service) < 2 ^ 64"
  shows "unat (GetReplicas order service m) = card (replica_set m service)"
  using assms(2) by (simp add: GetReplicas_card[OF assms(1)] unat_of_nat)

lemma replica_set_healthlock [simp]:
  "replica_set (m\<lparr>healthChecklock := b\<rparr>) service = replica_set m service"
  by (simp add: replica_set_def serves_def service_of_def split: option.split)

lemma can_clone_healthlock [simp]: "can_clone service (m\<lparr>healthChecklock := b\<rparr>) = can_clone service m"
  by (simp add: can_clone_def labels_wf_def keyed_def service_of_def)

text \<open>
  C5: scaling up reaches the target under every schedule of its goroutines: from at least one replica,
  when every creation works, the call returns nil with exactly the target number of replicas, the old
  ones among them; the other services keep their replicas, one address per new machine waits for its
  watchdog, and the mutex is free. (The error of a creation that fails is only logged, so without that
  condition the call may return nil below the target.)
\<close>

theorem scale_up_reaches_target:
  fixes replicas :: "64 word"
  assumes can: "can_clone service m" and free: "\<not> healthChecklock m"
    and ord: "range_order (machineInstanceMapv2 m) order"
    and less: "card (replica_set m service) < unat replicas"
    and works: "\<forall>i < unat replicas - card (replica_set m service). creation_works (envs i) \<and>
      valid_order (orders i) \<and> uuid_NewUUID (envs i) \<notin> dom (machineInstanceMapv2 m)"
    and fresh: "inj_on (\<lambda>i. uuid_NewUUID (envs i)) {..<unat replicas - card (replica_set m service)}"
  shows "\<exists>m'. ScaleMachinesTo nc envs orders sched order service replicas m = (Ret None, m') \<and>
    card (replica_set m' service) = unat replicas \<and> replica_set m service \<subseteq> replica_set m' service \<and>
    (\<forall>svc. svc \<noteq> service \<longrightarrow> replica_set m' svc = replica_set m svc) \<and>
    length (pending m') = length (pending m) + (unat replicas - card (replica_set m service)) \<and>
    networkController m' = networkController m \<and> \<not> healthChecklock m'"
proof -
  let ?c = "card (replica_set m service)" and ?r = "unat replicas"
  let ?k = "?r - ?c" and ?m = "m\<lparr>healthChecklock := True\<rparr>" and ?gs = "replicate (unat replicas - card (replica_set m service)) Ready"
  let ?step = "\<lambda>i. clone_step (envs i) (orders i) service"
  have "?r < 2 ^ LENGTH(64)" by (rule unsigned_less)
  then have "?c < 2 ^ 64" using less by simp
  then have curr: "unat (GetReplicas order service m) = ?c" by (rule GetReplicas_unat[OF ord])
  then have lt: "GetReplicas order service m < replicas" using less by (simp add: word_less_nat_alt)
  have diff: "unat (replicas - GetReplicas order service m) = ?k"
    using lt curr by (simp add: unat_sub)
  have "created_uids envs ?gs = {}" "ended_count ?gs = 0" by (simp_all add: created_uids_def ended_count_def)
  then have start: "scale_up_inv service envs ?m ?k ?m ?gs"
    using can by (simp add: scale_up_inv_def source_ok_def)
  have works': "\<forall>i < ?k. creation_works (envs i) \<and> valid_order (orders i) \<and> uuid_NewUUID (envs i) \<notin> dom (machineInstanceMapv2 ?m)"
    using works by simp
  from interleave_invariant[of "scale_up_inv service envs ?m ?k" ?m ?gs ?step, OF start clone_step_inv[OF _ _ works' fresh]]
  obtain gs m' where run: "interleave ?step (sched @ remaining_steps ?k) ?gs ?m = (Ret gs, m')"
    and inv: "scale_up_inv service envs ?m ?k m' gs" by blast
  have ended: "\<forall>g\<in>set gs. g = Finished"
  proof
    fix g assume g: "g \<in> set gs"
    have "clone_left g = 0"
      by (rule goroutines_end[where left = clone_left and step = ?step, OF _ _ _ run g]) (auto dest: clone_step_left)
    moreover have "source_ok m' service g" using inv g by (simp add: scale_up_inv_def)
    ultimately show "g = Finished" by (cases g) (simp_all add: source_ok_def)
  qed
  then have gs: "gs = replicate ?k Finished" using inv by (simp add: scale_up_inv_def replicate_eqI)
  have new: "created_uids envs gs = (\<lambda>i. uuid_NewUUID (envs i)) ` {..<?k}" "ended_count gs = ?k"
    by (auto simp: gs created_uids_def ended_count_def)
  have scale: "ScaleMachinesTo nc envs orders sched order service replicas m = (Ret None, m'\<lparr>healthChecklock := False\<rparr>)"
    using free lt run ended by (auto simp: ScaleMachinesTo_def Let_def diff run_goroutines_def)
  have "finite (replica_set m service)" using can by (simp add: can_clone_def labels_wf_def finite_replica_set)
  moreover have "replica_set m service \<inter> created_uids envs gs = {}"
    using works subsetD[OF replica_set_dom[of m service]] by (fastforce simp: new(1))
  moreover have "card (created_uids envs gs) = ?k" using card_image[OF fresh] by (simp add: new(1))
  moreover have "finite (created_uids envs gs)" by (simp add: new(1))
  ultimately have "card (replica_set m' service) = ?c + ?k"
    using inv by (simp add: scale_up_inv_def card_Un_disjoint)
  with less have "card (replica_set m' service) = ?r" by simp
  with scale inv new(2) show ?thesis
    by (intro exI[of _ "m'\<lparr>healthChecklock := False\<rparr>"]) (simp add: scale_up_inv_def)
qed

text \<open>
  C11: a function without a running replica cannot be scaled up: every clone needs a source, so the
  call returns nil and changes nothing, under every schedule. Scaling to zero is final.
\<close>

theorem scale_from_zero_does_nothing:
  fixes replicas :: "64 word"
  assumes none: "replica_set m service = {}" and fin: "finite (dom (machineInstanceMapv2 m))"
    and free: "\<not> healthChecklock m" and ord: "range_order (machineInstanceMapv2 m) order"
    and orders: "\<forall>i. valid_order (orders i)"
  shows "ScaleMachinesTo nc envs orders sched order service replicas m = (Ret None, m)"
proof -
  let ?m = "m\<lparr>healthChecklock := True\<rparr>" and ?step = "\<lambda>i. clone_step (envs i) (orders i) service"
  define k where "k = unat (replicas - GetReplicas order service m)"
  have zero: "GetReplicas order service m = 0" by (simp add: GetReplicas_card[OF ord] none)
  have choose: "choose_machine (orders i) service ?m = (Ret Finished, ?m)" for i
  proof -
    have ord1: "range_order (machineInstanceMapv2 ?m) (orders i (machineInstanceMapv2 ?m))"
      using orders fin by (simp add: valid_order_def)
    have "replica_set ?m service = {}" using none by simp
    then show ?thesis
      by (cases rule: getFunctionMachine_cases[OF ord1, of service]) (auto simp: choose_machine_def)
  qed
  let ?I = "\<lambda>m' gs. m' = ?m \<and> set gs \<subseteq> {Ready, Finished}"
  have "\<exists>g m2. ?step i (gs ! i) m1 = (Ret g, m2) \<and> ?I m2 (gs[i := g])" if "?I m1 gs" "i < length gs" for i m1 gs
  proof -
    have "gs ! i = Ready \<or> gs ! i = Finished" using that nth_mem[OF that(2)] by blast
    moreover have "set (gs[i := Finished]) \<subseteq> {Ready, Finished}" using that(1) by (auto dest: set_update_cases)
    ultimately show ?thesis using that(1) by (auto simp: choose go_return_def)
  qed
  from interleave_invariant[of ?I ?m "replicate k Ready" ?step "sched @ remaining_steps k", OF _ this]
  obtain gs where gs: "interleave ?step (sched @ remaining_steps k) (replicate k Ready) ?m = (Ret gs, ?m)"
    "set gs \<subseteq> {Ready, Finished}" by fastforce
  have "m\<lparr>healthChecklock := False\<rparr> = m" using free by (cases m) simp
  moreover have "Stuck \<notin> set gs" using gs(2) by blast
  ultimately show ?thesis
    using free gs(1) by (simp add: ScaleMachinesTo_def Let_def zero run_goroutines_def go_return_def k_def)
qed

lemma sample_creation_works: "creation_works (sample_menv\<lparr>uuid_NewUUID := u\<rparr>)"
proof -
  have "calls_succeed (sample_menv\<lparr>uuid_NewUUID := u\<rparr>) mreq" for mreq
    by (simp add: calls_succeed_def sample_menv_def setup_volume_def setup_network_def Let_def)
  moreover have "service_ok (sample_menv\<lparr>uuid_NewUUID := u\<rparr>)"
    by (simp add: service_ok_def keeps_identity_def sample_menv_def is_running_def)
  ultimately show ?thesis by (simp add: creation_works_def sample_menv_def is_running_def)
qed

lemma sample_can_clone: "can_clone ''f'' (sample_machines ns)"
proof -
  have "service_of (sample_machines ns) x = ''f''" if "machineInstanceMapv2 (sample_machines ns) k = Some x" for k x
    using that by (auto simp: sample_machines_def sample_machine_def service_of_def go_lookup_def
        service_label_def split: if_splits)
  then have "labels_wf (sample_machines ns)" by (auto simp: labels_wf_def)
  then show ?thesis by (simp add: can_clone_def) (simp add: sample_machines_def)
qed

theorem scale_up_reaches_target_witness:
  "\<exists>m'. ScaleMachinesTo sample_nc (\<lambda>i. sample_menv\<lparr>uuid_NewUUID := (if i = 0 then ''uid3'' else ''uid4'')\<rparr>)
      (\<lambda>_ mp. sorted_list_of_set (dom mp)) [0, 1, 1, 0, 1, 0] [''uid1'', ''uid2''] ''f'' 4 (sample_machines ()) = (Ret None, m') \<and>
    card (replica_set m' ''f'') = 4"
proof -
  have "\<not> healthChecklock (sample_machines ())" by (simp add: sample_machines_def)
  moreover have "inj_on (\<lambda>i. uuid_NewUUID (sample_menv\<lparr>uuid_NewUUID := (if i = 0 then ''uid3'' else ''uid4'')\<rparr>))
      {..<unat (4 :: 64 word) - card (replica_set (sample_machines ()) ''f'')}"
    by (simp add: inj_on_def)
  moreover have "\<forall>i < unat (4 :: 64 word) - card (replica_set (sample_machines ()) ''f'').
      creation_works (sample_menv\<lparr>uuid_NewUUID := (if i = 0 then ''uid3'' else ''uid4'')\<rparr>) \<and>
      valid_order (\<lambda>mp. sorted_list_of_set (dom mp)) \<and>
      uuid_NewUUID (sample_menv\<lparr>uuid_NewUUID := (if i = 0 then ''uid3'' else ''uid4'')\<rparr>)
        \<notin> dom (machineInstanceMapv2 (sample_machines ()))"
    by (simp add: sample_creation_works sorted_order_valid)
  moreover have "card (replica_set (sample_machines ()) ''f'') < unat (4 :: 64 word)" by simp
  ultimately obtain m' where "ScaleMachinesTo sample_nc (\<lambda>i. sample_menv\<lparr>uuid_NewUUID := (if i = 0 then ''uid3'' else ''uid4'')\<rparr>)
      (\<lambda>_ mp. sorted_list_of_set (dom mp)) [0, 1, 1, 0, 1, 0] [''uid1'', ''uid2''] ''f'' 4 (sample_machines ()) = (Ret None, m')"
    and "card (replica_set m' ''f'') = unat (4 :: 64 word)"
    using scale_up_reaches_target[OF sample_can_clone _ sample_order, where replicas = 4 and nc = sample_nc and
        envs = "\<lambda>i. sample_menv\<lparr>uuid_NewUUID := (if i = 0 then ''uid3'' else ''uid4'')\<rparr>" and
        orders = "\<lambda>_ mp. sorted_list_of_set (dom mp)" and sched = "[0, 1, 1, 0, 1, 0]"] by blast
  then show ?thesis by auto
qed

theorem scale_from_zero_does_nothing_witness:
  "ScaleMachinesTo sample_nc (\<lambda>_. sample_menv) (\<lambda>_ mp. sorted_list_of_set (dom mp)) [1, 0] [''uid1'', ''uid2''] ''g'' 3
      (sample_machines ()) = (Ret None, sample_machines ())"
proof -
  have "replica_set (sample_machines ()) ''g'' = {}"
    by (auto simp: replica_set_def serves_def sample_machines_def sample_machine_def service_of_def
        go_lookup_def service_label_def split: if_splits)
  moreover have "\<not> healthChecklock (sample_machines ())" by (simp add: sample_machines_def)
  ultimately show ?thesis
    by (intro scale_from_zero_does_nothing[OF _ _ _ sample_order]) (simp_all add: sorted_order_valid)
qed

end
