(* ===== verification/Routing.thy ===== *)
theory Routing
  imports Scaling InternalController Caddy
begin

text \<open>
  The machine store over a network controller that keeps its contract: which machines are routed,
  what deleting and scaling down do to the registered addresses, and how a new machine becomes
  reachable. The lemmas are proved once from the contract and hold for both controllers.
\<close>

section \<open>Routed machines\<close>

text \<open>
  Every running machine has an interface, whose address is registered for its service, and no two
  running machines have the same address. The name of an interface is long enough to be cut.
\<close>

definition routed :: "('n \<Rightarrow> string \<Rightarrow> IP list) \<Rightarrow> (IP \<Rightarrow> bool) \<Rightarrow> 'n MachineStore \<Rightarrow> bool" where
  "routed pool plain m \<longleftrightarrow>
     (\<forall>key mc. machineInstanceMapv2 m key = Some mc \<longrightarrow> is_running mc \<longrightarrow>
        (\<exists>iface. machineNetworkMapv2 m key = Some iface \<and> plain (if_IP iface) \<and>
           if_IP iface \<in> set (pool (networkController m) (service_of m mc)) \<and> 15 \<le> length (if_IfName iface))) \<and>
     (\<forall>k1 k2 mc1 mc2 i1 i2. machineInstanceMapv2 m k1 = Some mc1 \<longrightarrow> machineInstanceMapv2 m k2 = Some mc2 \<longrightarrow>
        is_running mc1 \<longrightarrow> is_running mc2 \<longrightarrow> machineNetworkMapv2 m k1 = Some i1 \<longrightarrow>
        machineNetworkMapv2 m k2 = Some i2 \<longrightarrow> k1 \<noteq> k2 \<longrightarrow> if_IP i1 \<noteq> if_IP i2)"

lemma routedD:
  assumes "routed pool plain m" and "machineInstanceMapv2 m key = Some mc" and "is_running mc"
  obtains iface where "machineNetworkMapv2 m key = Some iface" and "plain (if_IP iface)"
    and "if_IP iface \<in> set (pool (networkController m) (service_of m mc))" and "15 \<le> length (if_IfName iface)"
  using assms unfolding routed_def by blast

lemma routed_distinct:
  assumes "routed pool plain m" and "machineInstanceMapv2 m k1 = Some mc1" and "machineInstanceMapv2 m k2 = Some mc2"
    and "is_running mc1" and "is_running mc2" and "machineNetworkMapv2 m k1 = Some i1"
    and "machineNetworkMapv2 m k2 = Some i2" and "k1 \<noteq> k2"
  shows "if_IP i1 \<noteq> if_IP i2"
  using assms unfolding routed_def by blast

text \<open>The machine service is there, and behaves.\<close>

definition destroy_works :: "machine_env \<Rightarrow> bool" where
  "destroy_works env \<longleftrightarrow> service_ok env \<and> machine_service env = None"

lemma stop_machine_returns:
  assumes "15 \<le> length (if_IfName iface)"
  shows "\<exists>e m'. stop_machine env machine iface m = (Ret e, m')"
proof -
  obtain obj isnil e where s: "machine_Stop env machine = (obj, isnil, e)" by (cases "machine_Stop env machine")
  have "\<not> length (if_IfName iface) < 15" using assms by simp
  with s show ?thesis
    by (cases isnil; cases "if LinkByName env (take 15 (if_IfName iface)) = None then remove_link env (if_IfName iface) else None")
      (simp_all add: stop_machine_def Let_def)
qed

text \<open>The store a delete works on: the machines are keyed, and the controller is in order.\<close>

definition store_ok :: "('n \<Rightarrow> string \<Rightarrow> IP list) \<Rightarrow> ('n \<Rightarrow> bool) \<Rightarrow> (IP \<Rightarrow> bool) \<Rightarrow> 'n MachineStore \<Rightarrow> bool" where
  "store_ok pool ctl_ok plain m \<longleftrightarrow> keyed m \<and> finite (dom (machineInstanceMapv2 m)) \<and>
     ctl_ok (networkController m) \<and> routed pool plain m"

lemma routed_after_delete:
  assumes rt: "routed pool plain m" and mc: "machineInstanceMapv2 m key = Some mc" "is_running mc"
    and iface: "machineNetworkMapv2 m key = Some iface"
    and fr: "\<And>k. k \<noteq> key \<Longrightarrow> machineInstanceMapv2 m' k = machineInstanceMapv2 m k \<and>
          machineNetworkMapv2 m' k = machineNetworkMapv2 m k"
    and heap: "map_heap m' = map_heap m"
    and stopped: "\<And>x. machineInstanceMapv2 m' key = Some x \<Longrightarrow> \<not> is_running x"
    and pool: "pool (networkController m') = (pool (networkController m))(service_of m mc :=
          filter (\<lambda>x. x \<noteq> if_IP iface) (pool (networkController m) (service_of m mc)))"
  shows "routed pool plain m'"
proof -
  have old: "k \<noteq> key \<and> machineInstanceMapv2 m k = Some x \<and> machineNetworkMapv2 m' k = machineNetworkMapv2 m k"
    if "machineInstanceMapv2 m' k = Some x" "is_running x" for k x
    using that fr[of k] stopped by (cases "k = key") auto
  have sv: "service_of m' x = service_of m x" for x by (simp add: service_of_def heap)
  have "\<exists>i. machineNetworkMapv2 m' k = Some i \<and> plain (if_IP i) \<and>
      if_IP i \<in> set (pool (networkController m') (service_of m' x)) \<and> 15 \<le> length (if_IfName i)"
    if x: "machineInstanceMapv2 m' k = Some x" "is_running x" for k x
  proof (rule routedD[OF rt, of k x])
    fix i
    assume i: "machineNetworkMapv2 m k = Some i" "plain (if_IP i)"
      "if_IP i \<in> set (pool (networkController m) (service_of m x))" "15 \<le> length (if_IfName i)"
    have "if_IP i \<noteq> if_IP iface"
      using routed_distinct[OF rt _ mc(1) x(2) mc(2) i(1) iface] old[OF x] by blast
    with i old[OF x] show ?thesis by (cases "service_of m x = service_of m mc") (simp_all add: sv pool)
  qed (use old[OF x] x(2) in simp_all)
  moreover have "if_IP i1 \<noteq> if_IP i2"
    if "machineInstanceMapv2 m' k1 = Some x1" "machineInstanceMapv2 m' k2 = Some x2" "is_running x1" "is_running x2"
      "machineNetworkMapv2 m' k1 = Some i1" "machineNetworkMapv2 m' k2 = Some i2" "k1 \<noteq> k2" for k1 k2 x1 x2 i1 i2
    using routed_distinct[OF rt, of k1 x1 k2 x2 i1 i2] old[OF that(1,3)] old[OF that(2,4)] that by simp
  ultimately show ?thesis unfolding routed_def by blast
qed

text \<open>
  What a visit of the health check asks: a running machine is found stopped when the machine service
  says so, and is still a replica when its object says so, also after a question that failed. A question
  that succeeds is answered with a machine.
\<close>

definition found_stopped :: "machine_env \<Rightarrow> 'n MachineStore \<Rightarrow> string \<Rightarrow> bool" where
  "found_stopped env m key = (case machineInstanceMapv2 m key of
      None \<Rightarrow> False
    | Some mc \<Rightarrow> is_running mc \<and> snd (snd (machine_Get env mc)) = None \<and> \<not> is_running (fst (machine_Get env mc)))"

definition still_running :: "machine_env \<Rightarrow> 'n MachineStore \<Rightarrow> string \<Rightarrow> bool" where
  "still_running env m key = (case machineInstanceMapv2 m key of
      None \<Rightarrow> False | Some mc \<Rightarrow> is_running (fst (machine_Get env mc)))"

definition gets_machines :: "machine_env \<Rightarrow> bool" where
  "gets_machines env \<longleftrightarrow> (\<forall>mc. snd (snd (machine_Get env mc)) = None \<longrightarrow> \<not> fst (snd (machine_Get env mc)))"

text \<open>An object brought up to date in place keeps its route.\<close>

lemma routed_update:
  assumes rt: "routed pool plain m" and mc: "machineInstanceMapv2 m key = Some mc" "is_running obj \<Longrightarrow> is_running mc"
    and lab: "mc_Labels obj = mc_Labels mc"
    and m': "machineInstanceMapv2 m' = (machineInstanceMapv2 m)(key \<mapsto> obj)"
      "machineNetworkMapv2 m' = machineNetworkMapv2 m" "map_heap m' = map_heap m" "networkController m' = networkController m"
  shows "routed pool plain m'"
proof -
  have old: "\<exists>y. machineInstanceMapv2 m k = Some y \<and> is_running y \<and> service_of m y = service_of m' x"
    if "machineInstanceMapv2 m' k = Some x" "is_running x" for k x
    using that mc lab by (cases "k = key") (auto simp: m' service_of_def)
  show ?thesis
    unfolding routed_def
  proof (intro conjI allI impI)
    fix k x
    assume "machineInstanceMapv2 m' k = Some x" "is_running x"
    from old[OF this] obtain y where "machineInstanceMapv2 m k = Some y" "is_running y" "service_of m y = service_of m' x" by blast
    with routedD[OF rt this(1,2)] show "\<exists>iface. machineNetworkMapv2 m' k = Some iface \<and> plain (if_IP iface) \<and>
        if_IP iface \<in> set (pool (networkController m') (service_of m' x)) \<and> 15 \<le> length (if_IfName iface)"
      by (metis m'(2,4))
  next
    fix k1 k2 x1 x2 i1 i2
    assume a: "machineInstanceMapv2 m' k1 = Some x1" "machineInstanceMapv2 m' k2 = Some x2" "is_running x1" "is_running x2"
      "machineNetworkMapv2 m' k1 = Some i1" "machineNetworkMapv2 m' k2 = Some i2" "k1 \<noteq> k2"
    from old[OF a(1,3)] old[OF a(2,4)] routed_distinct[OF rt] a(5-7) show "if_IP i1 \<noteq> if_IP i2"
      unfolding m'(2) by blast
  qed
qed

context network_controller
begin

text \<open>Destroying a marked machine whose address is registered.\<close>

lemma destroy_deregisters:
  assumes works: "destroy_works env" and inv: "nc_inv (networkController m)"
    and net: "machineNetworkMapv2 m (mc_UID mc) = Some iface"
    and reg: "if_IP iface \<in> set (pool (networkController m) (service_of m mc))"
    and pl: "plain (if_IP iface)" and len: "15 \<le> length (if_IfName iface)"
  obtains e m' where "destroyMachine nc env mc m = (Ret e, m')" and "nc_inv (networkController m')"
    and "pool (networkController m') = (pool (networkController m))(service_of m mc :=
      filter (\<lambda>x. x \<noteq> if_IP iface) (pool (networkController m) (service_of m mc)))"
proof -
  from delete_pool[OF inv pl reg] obtain e ns where
    del: "DeleteServiceIP nc (service_of m mc) (if_IP iface) (networkController m) = (Ret e, ns)"
    and ns: "nc_inv ns" "pool ns = (pool (networkController m))(service_of m mc :=
      filter (\<lambda>x. x \<noteq> if_IP iface) (pool (networkController m) (service_of m mc)))" by blast
  have call: "on_controller (DeleteServiceIP nc (service_of m mc) (if_IP iface)) m = (Ret e, m\<lparr>networkController := ns\<rparr>)"
    by (simp add: on_controller_def del)
  show thesis
  proof (cases e)
    case (Some err)
    have "destroyMachine nc env mc m = (Ret (Some err), m\<lparr>networkController := ns\<rparr>)"
      using works net call Some by (simp add: destroyMachine_def destroy_works_def go_return_def)
    from that[OF this] ns show thesis by simp
  next
    case None
    obtain e' m' where st: "stop_machine env mc iface (m\<lparr>networkController := ns\<rparr>) = (Ret e', m')"
      using stop_machine_returns[OF len] by blast
    have "destroyMachine nc env mc m = (Ret e', m')"
      using works net call None st by (simp add: destroyMachine_def destroy_works_def)
    moreover have "networkController m' = ns" using stop_machine_frame[OF st refl] by simp
    ultimately show thesis using ns that[of e' m'] by simp
  qed
qed

text \<open>
  Destroying a machine whose entry has just been replaced by an object that does not run: it stops
  being a replica, and its address is deregistered.
\<close>

lemma retire_machine:
  assumes ok: "store_ok pool nc_inv plain m" and works: "destroy_works env"
    and mc: "machineInstanceMapv2 m key = Some mc" "is_running mc"
    and obj: "mc_UID obj = key" "mc_Labels obj = mc_Labels mc" "\<not> is_running obj"
    and m1: "machineInstanceMapv2 m1 = (machineInstanceMapv2 m)(key \<mapsto> obj)"
      "machineNetworkMapv2 m1 = machineNetworkMapv2 m" "map_heap m1 = map_heap m"
      "networkController m1 = networkController m" "healthChecklock m1 = healthChecklock m"
  obtains e m' iface where "destroyMachine nc env obj m1 = (Ret e, m')"
    and "store_ok pool nc_inv plain m'"
    and "\<And>svc. replica_set m' svc = replica_set m svc - {key}"
    and "machineNetworkMapv2 m key = Some iface"
    and "pool (networkController m') = (pool (networkController m))(service_of m mc :=
      filter (\<lambda>x. x \<noteq> if_IP iface) (pool (networkController m) (service_of m mc)))"
    and "\<And>k. k \<noteq> key \<Longrightarrow> machineNetworkMapv2 m' k = machineNetworkMapv2 m k"
    and "healthChecklock m' = healthChecklock m"
proof -
  have keyed: "keyed m" and fin: "finite (dom (machineInstanceMapv2 m))" and inv: "nc_inv (networkController m)"
    and rt: "routed pool plain m" using ok by (simp_all add: store_ok_def)
  have svc1: "service_of m1 obj = service_of m mc" by (simp add: service_of_def m1 obj)
  have sok: "service_ok env" using works by (simp add: destroy_works_def)
  have reps1: "replica_set m1 svc = replica_set m svc - {key}" for svc
  proof -
    have "serves m1 svc k = (serves m svc k \<and> k \<noteq> key)" for k
      using obj(3) by (cases "k = key") (simp_all add: serves_def m1 service_of_def split: option.split)
    then show ?thesis by (auto simp: replica_set_def)
  qed
  show thesis
  proof (rule routedD[OF rt mc])
    fix iface
    assume iface: "machineNetworkMapv2 m key = Some iface" "plain (if_IP iface)"
      "if_IP iface \<in> set (pool (networkController m) (service_of m mc))" "15 \<le> length (if_IfName iface)"
    have "nc_inv (networkController m1)" "machineNetworkMapv2 m1 (mc_UID obj) = Some iface"
      "if_IP iface \<in> set (pool (networkController m1) (service_of m1 obj))"
      using inv iface obj(1) svc1 m1 by simp_all
    from destroy_deregisters[OF works this iface(2,4)] obtain e m' where
      d: "destroyMachine nc env obj m1 = (Ret e, m')" and inv': "nc_inv (networkController m')"
      and pool': "pool (networkController m') = (pool (networkController m))(service_of m mc :=
        filter (\<lambda>x. x \<noteq> if_IP iface) (pool (networkController m) (service_of m mc)))"
      by (auto simp: svc1 m1)
    have fr: "\<And>k. k \<noteq> key \<Longrightarrow> machineInstanceMapv2 m' k = machineInstanceMapv2 m k \<and>
        machineNetworkMapv2 m' k = machineNetworkMapv2 m k" "map_heap m' = map_heap m"
      "healthChecklock m' = healthChecklock m"
      "dom (machineInstanceMapv2 m') \<subseteq> insert key (dom (machineInstanceMapv2 m))"
      using destroyMachine_frame[OF d, of key] obj(1) m1 by (auto simp: dom_def)
    have reps: "replica_set m' svc = replica_set m svc - {key}" for svc
      using destroy_replica_set[OF d sok obj(3), of svc] reps1 obj(1) by simp
    have "keyed m1" using keyed obj(1) by (simp add: keyed_def m1)
    then have keyed': "keyed m'" by (rule destroy_keyed[OF d sok])
    have stopped: "\<not> is_running x" if "machineInstanceMapv2 m' key = Some x" for x
    proof
      assume "is_running x"
      with that have "key \<in> replica_set m' (service_of m' x)" by (simp add: replica_set_def serves_def)
      then show False by (simp add: reps)
    qed
    have rt': "routed pool plain m'"
      by (rule routed_after_delete[OF rt mc iface(1) fr(1,2) stopped pool'])
    have "finite (dom (machineInstanceMapv2 m'))" using finite_subset[OF fr(4)] fin by simp
    then have "store_ok pool nc_inv plain m'" using keyed' inv' rt' by (simp add: store_ok_def)
    from that[OF d this reps iface(1) pool' conjunct2[OF fr(1)] fr(3)] show thesis .
  qed
qed

text \<open>Deleting a machine of a service stops one replica and deregisters its address.\<close>

lemma delete_machine:
  assumes ok: "store_ok pool nc_inv plain m" and works: "destroy_works env" and ord: "valid_order order_of"
    and some: "replica_set m service \<noteq> {}"
  obtains e m' key iface where "DeleteMachine nc env order_of service m = (Ret e, m')"
    and "store_ok pool nc_inv plain m'" and "key \<in> replica_set m service"
    and "replica_set m' service = replica_set m service - {key}"
    and "\<And>svc. svc \<noteq> service \<Longrightarrow> replica_set m' svc = replica_set m svc"
    and "machineNetworkMapv2 m key = Some iface"
    and "pool (networkController m') = (pool (networkController m))(service :=
      filter (\<lambda>x. x \<noteq> if_IP iface) (pool (networkController m) service))"
    and "\<And>k. k \<noteq> key \<Longrightarrow> machineNetworkMapv2 m' k = machineNetworkMapv2 m k"
    and "healthChecklock m' = healthChecklock m"
proof -
  have keyed: "keyed m" and fin: "finite (dom (machineInstanceMapv2 m))"
    using ok by (simp_all add: store_ok_def)
  have "range_order (machineInstanceMapv2 m) (order_of (machineInstanceMapv2 m))"
    using ord fin by (simp add: valid_order_def)
  then obtain key mc where mc: "key \<in> replica_set m service" "machineInstanceMapv2 m key = Some mc"
      "is_running mc" "service_of m mc = service"
      "getFunctionMachine (order_of (machineInstanceMapv2 m)) service m = Inr mc"
    using some by (cases rule: getFunctionMachine_cases[of m "order_of (machineInstanceMapv2 m)" service]) auto
  have uid: "mc_UID mc = key" by (rule keyedD[OF keyed mc(2)])
  let ?u = "mc\<lparr>mc_State := MachineStateUnknown\<rparr>" and ?m1 = "mark_machine mc m"
  have obj: "mc_UID ?u = key" "mc_Labels ?u = mc_Labels mc" "\<not> is_running ?u"
    and m1: "machineInstanceMapv2 ?m1 = (machineInstanceMapv2 m)(key \<mapsto> ?u)"
      "machineNetworkMapv2 ?m1 = machineNetworkMapv2 m" "map_heap ?m1 = map_heap m"
      "networkController ?m1 = networkController m" "healthChecklock ?m1 = healthChecklock m"
    by (simp_all add: uid)
  show thesis
  proof (rule retire_machine[OF ok works mc(2,3) obj m1])
    fix e m' iface
    assume d: "destroyMachine nc env ?u ?m1 = (Ret e, m')" and r: "store_ok pool nc_inv plain m'"
      and reps: "\<And>svc. replica_set m' svc = replica_set m svc - {key}"
      and iface: "machineNetworkMapv2 m key = Some iface"
      and pool': "pool (networkController m') = (pool (networkController m))(service_of m mc :=
        filter (\<lambda>x. x \<noteq> if_IP iface) (pool (networkController m) (service_of m mc)))"
      and net: "\<And>k. k \<noteq> key \<Longrightarrow> machineNetworkMapv2 m' k = machineNetworkMapv2 m k"
      and lock: "healthChecklock m' = healthChecklock m"
    have run: "DeleteMachine nc env order_of service m = (Ret e, m')"
      using mc(5) d by (simp add: DeleteMachine_def)
    have others: "replica_set m' svc = replica_set m svc" if "svc \<noteq> service" for svc
      using reps[of svc] replica_service[OF _ mc(2), of svc] mc(4) that by auto
    show thesis
      by (rule that[OF run r mc(1) reps others iface pool'[unfolded mc(4)] net lock])
  qed
qed

text \<open>A visit of the health check that finds a machine no longer running retires it.\<close>

lemma check_retires:
  assumes ok: "store_ok pool nc_inv plain m" and works: "destroy_works env" and free: "\<not> healthChecklock m"
    and mc: "machineInstanceMapv2 m key = Some mc" "is_running mc"
    and got: "machine_Get env mc = (obj, False, None)" and dead: "\<not> is_running obj"
  obtains m' iface where "check_machine nc env key m = (Ret (), m')"
    and "store_ok pool nc_inv plain m'"
    and "\<And>svc. replica_set m' svc = replica_set m svc - {key}"
    and "machineNetworkMapv2 m key = Some iface"
    and "pool (networkController m') = (pool (networkController m))(service_of m mc :=
      filter (\<lambda>x. x \<noteq> if_IP iface) (pool (networkController m) (service_of m mc)))"
    and "\<not> healthChecklock m'" and "map_heap m' = map_heap m"
    and "\<And>k. k \<noteq> key \<Longrightarrow> machineInstanceMapv2 m' k = machineInstanceMapv2 m k \<and>
      machineNetworkMapv2 m' k = machineNetworkMapv2 m k"
proof -
  have sok: "service_ok env" using works by (simp add: destroy_works_def)
  have uid: "mc_UID mc = key" using ok mc(1) by (simp add: store_ok_def keyed_def)
  have obj: "mc_UID obj = key" "mc_Labels obj = mc_Labels mc"
    using service_okD(4,8)[OF sok, of mc] uid by (simp_all add: got)
  let ?m1 = "m\<lparr>machineInstanceMapv2 := (machineInstanceMapv2 m)(key \<mapsto> obj)\<rparr>"
  have upd: "update_object key obj m = ?m1" by (simp add: update_object_def mc(1))
  show thesis
  proof (rule retire_machine[OF ok works mc obj dead, of ?m1])
    fix e m' iface
    assume d: "destroyMachine nc env obj ?m1 = (Ret e, m')" and r: "store_ok pool nc_inv plain m'"
      "\<And>svc. replica_set m' svc = replica_set m svc - {key}" "machineNetworkMapv2 m key = Some iface"
      "pool (networkController m') = (pool (networkController m))(service_of m mc :=
        filter (\<lambda>x. x \<noteq> if_IP iface) (pool (networkController m) (service_of m mc)))"
      and lock: "healthChecklock m' = healthChecklock m"
    have "check_machine nc env key m = (Ret (), m')"
      using free mc got dead d by (simp add: check_machine_def upd go_return_def)
    from that[OF this r] destroyMachine_frame[OF d obj(1)] free lock show thesis by simp
  qed simp_all
qed

text \<open>
  One visit: the machine found stopped is retired, one whose check fails is a replica as its object
  says, and every other machine is left alone.
\<close>

lemma check_visit:
  assumes ok: "store_ok pool nc_inv plain m" and works: "destroy_works env" and free: "\<not> healthChecklock m"
    and answers: "gets_machines env"
  obtains m' where "check_machine nc env key m = (Ret (), m')" and "store_ok pool nc_inv plain m'"
    and "\<not> healthChecklock m'" and "map_heap m' = map_heap m"
    and "\<And>svc. replica_set m' svc = {k \<in> replica_set m svc. k = key \<longrightarrow> still_running env m k}"
    and "\<And>svc. set (pool (networkController m') svc) = set (pool (networkController m) svc) -
      {if_IP i | i. found_stopped env m key \<and> key \<in> replica_set m svc \<and> machineNetworkMapv2 m key = Some i}"
    and "\<And>k. k \<noteq> key \<Longrightarrow> machineInstanceMapv2 m' k = machineInstanceMapv2 m k \<and>
      machineNetworkMapv2 m' k = machineNetworkMapv2 m k"
proof (cases "\<exists>mc. machineInstanceMapv2 m key = Some mc \<and> is_running mc")
  case False
  then have run: "check_machine nc env key m = (Ret (), m)"
    using free by (auto simp: check_machine_def split: option.split)
  have "key \<notin> replica_set m svc" for svc using False by (auto simp: replica_set_def serves_def split: option.splits)
  then show thesis by (intro that[OF run ok free]) auto
next
  case True
  then obtain mc where mc: "machineInstanceMapv2 m key = Some mc" "is_running mc" by blast
  have serves: "key \<in> replica_set m svc \<longleftrightarrow> svc = service_of m mc" for svc
    by (auto simp: replica_set_def serves_def mc)
  obtain obj isnil err where got: "machine_Get env mc = (obj, isnil, err)" by (cases "machine_Get env mc")
  have sok: "service_ok env" using works by (simp add: destroy_works_def)
  have uid: "mc_UID mc = key" using ok mc(1) by (simp add: store_ok_def keyed_def)
  have obj: "mc_UID obj = key" "mc_Labels obj = mc_Labels mc"
    using service_okD(4,8)[OF sok, of mc] uid by (simp_all add: got)
  have still: "still_running env m key \<longleftrightarrow> is_running obj" by (simp add: still_running_def mc got)
  show thesis
  proof (cases "err = None \<and> \<not> is_running obj")
    case dead: True
    then have "\<not> isnil" using answers got by (auto simp: gets_machines_def dest: spec[of _ mc])
    with dead got have got': "machine_Get env mc = (obj, False, None)" and nr: "\<not> is_running obj" by simp_all
    have found: "found_stopped env m key" by (simp add: found_stopped_def mc got' nr)
    show thesis
    proof (rule check_retires[OF ok works free mc got' nr])
      fix m' iface
      assume r: "check_machine nc env key m = (Ret (), m')" "store_ok pool nc_inv plain m'"
        and reps: "\<And>svc. replica_set m' svc = replica_set m svc - {key}"
        and iface: "machineNetworkMapv2 m key = Some iface"
        and pl: "pool (networkController m') = (pool (networkController m))(service_of m mc :=
          filter (\<lambda>x. x \<noteq> if_IP iface) (pool (networkController m) (service_of m mc)))"
        and rest: "\<not> healthChecklock m'" "map_heap m' = map_heap m"
          "\<And>k. k \<noteq> key \<Longrightarrow> machineInstanceMapv2 m' k = machineInstanceMapv2 m k \<and>
            machineNetworkMapv2 m' k = machineNetworkMapv2 m k"
      have "replica_set m' svc = {k \<in> replica_set m svc. k = key \<longrightarrow> still_running env m k}" for svc
        using reps[of svc] still nr by auto
      moreover have "set (pool (networkController m') svc) = set (pool (networkController m) svc) -
          {if_IP i | i. found_stopped env m key \<and> key \<in> replica_set m svc \<and> machineNetworkMapv2 m key = Some i}" for svc
        by (auto simp: pl found serves iface)
      ultimately show thesis using that[OF r rest(1,2) _ _ rest(3)] by blast
    qed
  next
    case alive: False
    let ?m = "m\<lparr>machineInstanceMapv2 := (machineInstanceMapv2 m)(key \<mapsto> obj)\<rparr>"
    have "\<not> (err = None \<and> isnil)" using answers got by (auto simp: gets_machines_def dest: spec[of _ mc])
    with alive have run: "check_machine nc env key m = (Ret (), ?m)"
      using free mc got by (cases err; cases isnil) (simp_all add: check_machine_def update_object_def)
    have sv: "service_of ?m x = service_of m x" for x by (simp add: service_of_def)
    have "service_of m obj = service_of m mc" using obj(2) by (simp add: service_of_def)
    then have "serves ?m svc k = (serves m svc k \<and> (k = key \<longrightarrow> is_running obj))" for svc k
      using mc by (cases "k = key") (simp_all add: serves_def sv split: option.split)
    then have reps: "replica_set ?m svc = {k \<in> replica_set m svc. k = key \<longrightarrow> still_running env m k}" for svc
      using still by (auto simp: replica_set_def)
    have "routed pool plain ?m"
      by (rule routed_update[where m = m and key = key and mc = mc and obj = obj])
        (use ok mc obj in \<open>simp_all add: store_ok_def\<close>)
    then have ok': "store_ok pool nc_inv plain ?m" using ok obj(1) by (auto simp: store_ok_def keyed_def)
    have none: "\<not> found_stopped env m key" using alive by (auto simp: found_stopped_def mc got)
    show thesis by (rule that[OF run ok' _ _ reps]) (simp_all add: free none)
  qed
qed

text \<open>A pass over all machines.\<close>

lemma health_pass_retires:
  assumes "store_ok pool nc_inv plain m" and works: "destroy_works env" and "\<not> healthChecklock m"
    and answers: "gets_machines env" and "distinct keys"
  shows "\<exists>m'. health_pass nc env keys m = (Ret (), m') \<and> store_ok pool nc_inv plain m' \<and> \<not> healthChecklock m' \<and>
    (\<forall>svc. replica_set m' svc = {k \<in> replica_set m svc. k \<in> set keys \<longrightarrow> still_running env m k}) \<and>
    (\<forall>svc. set (pool (networkController m') svc) = set (pool (networkController m) svc) -
      {if_IP i | k i. k \<in> set keys \<and> found_stopped env m k \<and> k \<in> replica_set m svc \<and> machineNetworkMapv2 m k = Some i})"
  using assms(1,3,5)
proof (induction keys arbitrary: m)
  case Nil
  then show ?case by simp
next
  case (Cons key keys)
  show ?case
  proof (rule check_visit[OF Cons.prems(1) works Cons.prems(2) answers, of key])
    fix m1
    assume run: "check_machine nc env key m = (Ret (), m1)" and ok1: "store_ok pool nc_inv plain m1"
      and free1: "\<not> healthChecklock m1" and heap: "map_heap m1 = map_heap m"
      and reps: "\<And>svc. replica_set m1 svc = {k \<in> replica_set m svc. k = key \<longrightarrow> still_running env m k}"
      and pl: "\<And>svc. set (pool (networkController m1) svc) = set (pool (networkController m) svc) -
        {if_IP i | i. found_stopped env m key \<and> key \<in> replica_set m svc \<and> machineNetworkMapv2 m key = Some i}"
      and fr: "\<And>k. k \<noteq> key \<Longrightarrow> machineInstanceMapv2 m1 k = machineInstanceMapv2 m k \<and>
        machineNetworkMapv2 m1 k = machineNetworkMapv2 m k"
    have same: "still_running env m1 k = still_running env m k" "found_stopped env m1 k = found_stopped env m k"
      "k \<in> replica_set m1 svc \<longleftrightarrow> k \<in> replica_set m svc" "machineNetworkMapv2 m1 k = machineNetworkMapv2 m k"
      if "k \<in> set keys" for k svc
    proof -
      have ne: "k \<noteq> key" using that Cons.prems(3) by auto
      with fr[OF ne] reps[of svc] show "still_running env m1 k = still_running env m k"
        "found_stopped env m1 k = found_stopped env m k" "k \<in> replica_set m1 svc \<longleftrightarrow> k \<in> replica_set m svc"
        "machineNetworkMapv2 m1 k = machineNetworkMapv2 m k"
        by (simp_all add: still_running_def found_stopped_def)
    qed
    have "distinct keys" using Cons.prems(3) by simp
    from Cons.IH[OF ok1 free1 this] obtain m' where
      r: "health_pass nc env keys m1 = (Ret (), m')" "store_ok pool nc_inv plain m'" "\<not> healthChecklock m'"
      and reps': "\<And>svc. replica_set m' svc = {k \<in> replica_set m1 svc. k \<in> set keys \<longrightarrow> still_running env m1 k}"
      and pl': "\<And>svc. set (pool (networkController m') svc) = set (pool (networkController m1) svc) -
        {if_IP i | k i. k \<in> set keys \<and> found_stopped env m1 k \<and> k \<in> replica_set m1 svc \<and> machineNetworkMapv2 m1 k = Some i}"
      by blast
    have "replica_set m' svc = {k \<in> replica_set m svc. k \<in> set (key # keys) \<longrightarrow> still_running env m k}" for svc
      using same by (auto simp: reps' reps)
    moreover have "set (pool (networkController m') svc) = set (pool (networkController m) svc) -
      {if_IP i | k i. k \<in> set (key # keys) \<and> found_stopped env m k \<and> k \<in> replica_set m svc \<and> machineNetworkMapv2 m k = Some i}"
      for svc
    proof -
      have "{if_IP i | k i. k \<in> set keys \<and> found_stopped env m1 k \<and> k \<in> replica_set m1 svc \<and> machineNetworkMapv2 m1 k = Some i} =
          {if_IP i | k i. k \<in> set keys \<and> found_stopped env m k \<and> k \<in> replica_set m svc \<and> machineNetworkMapv2 m k = Some i}"
        using same(2-4) by (metis (no_types, opaque_lifting))
      then show ?thesis unfolding pl'[of svc] pl[of svc] by auto
    qed
    moreover have "health_pass nc env (key # keys) m = (Ret (), m')" using run r(1) by simp
    ultimately show ?thesis using r(2,3) by blast
  qed
qed

end

section \<open>Scaling down along a schedule\<close>

text \<open>Changes of the store that touch no running machine.\<close>

lemma routed_stopped:
  assumes rt: "routed pool plain m"
    and others: "\<And>k. k \<noteq> key \<Longrightarrow> machineInstanceMapv2 m' k = machineInstanceMapv2 m k \<and>
      machineNetworkMapv2 m' k = machineNetworkMapv2 m k"
    and own: "\<And>x. machineInstanceMapv2 m' key = Some x \<Longrightarrow> \<not> is_running x"
    and rest: "map_heap m' = map_heap m" "networkController m' = networkController m"
  shows "routed pool plain m'"
proof -
  have old: "k \<noteq> key \<and> machineInstanceMapv2 m k = Some x \<and> machineNetworkMapv2 m' k = machineNetworkMapv2 m k"
    if "machineInstanceMapv2 m' k = Some x" "is_running x" for k x
    using that others[of k] own by (cases "k = key") auto
  have sv: "service_of m' x = service_of m x" for x by (simp add: service_of_def rest)
  show ?thesis
    unfolding routed_def
  proof (intro conjI allI impI)
    fix k x
    assume x: "machineInstanceMapv2 m' k = Some x" "is_running x"
    with routedD[OF rt, of k x] old[OF x] show "\<exists>iface. machineNetworkMapv2 m' k = Some iface \<and> plain (if_IP iface) \<and>
        if_IP iface \<in> set (pool (networkController m') (service_of m' x)) \<and> 15 \<le> length (if_IfName iface)"
      by (metis sv rest(2))
  next
    fix k1 k2 x1 x2 i1 i2
    assume a: "machineInstanceMapv2 m' k1 = Some x1" "machineInstanceMapv2 m' k2 = Some x2" "is_running x1" "is_running x2"
      "machineNetworkMapv2 m' k1 = Some i1" "machineNetworkMapv2 m' k2 = Some i2" "k1 \<noteq> k2"
    with old[OF a(1,3)] old[OF a(2,4)] routed_distinct[OF rt, of k1 x1 k2 x2 i1 i2] show "if_IP i1 \<noteq> if_IP i2" by simp
  qed
qed

lemma routed_deregister:
  assumes rt: "routed pool plain m" and pl: "pool ns = (pool (networkController m))(svc :=
      filter (\<lambda>x. x \<noteq> ip) (pool (networkController m) svc))"
    and other: "\<And>k i. k \<in> replica_set m svc \<Longrightarrow> machineNetworkMapv2 m k = Some i \<Longrightarrow> if_IP i \<noteq> ip"
  shows "routed pool plain (m\<lparr>networkController := ns\<rparr>)"
  unfolding routed_def
proof (intro conjI allI impI)
  fix k x
  assume "machineInstanceMapv2 (m\<lparr>networkController := ns\<rparr>) k = Some x" and run: "is_running x"
  then have x: "machineInstanceMapv2 m k = Some x" by simp
  show "\<exists>iface. machineNetworkMapv2 (m\<lparr>networkController := ns\<rparr>) k = Some iface \<and> plain (if_IP iface) \<and>
      if_IP iface \<in> set (pool (networkController (m\<lparr>networkController := ns\<rparr>)) (service_of (m\<lparr>networkController := ns\<rparr>) x)) \<and>
      15 \<le> length (if_IfName iface)"
  proof (rule routedD[OF rt x run])
    fix i
    assume i: "machineNetworkMapv2 m k = Some i" "plain (if_IP i)"
      "if_IP i \<in> set (pool (networkController m) (service_of m x))" "15 \<le> length (if_IfName i)"
    have "k \<in> replica_set m (service_of m x)" using x run by (simp add: replica_set_def serves_def)
    with other[of k i] i(1) have "service_of m x = svc \<Longrightarrow> if_IP i \<noteq> ip" by simp
    moreover have "service_of (m\<lparr>networkController := ns\<rparr>) x = service_of m x" by (simp add: service_of_def)
    ultimately show ?thesis using i by (cases "service_of m x = svc") (simp_all add: pl)
  qed
next
  fix k1 k2 x1 x2 i1 i2
  assume "machineInstanceMapv2 (m\<lparr>networkController := ns\<rparr>) k1 = Some x1" "machineInstanceMapv2 (m\<lparr>networkController := ns\<rparr>) k2 = Some x2"
    "is_running x1" "is_running x2" "machineNetworkMapv2 (m\<lparr>networkController := ns\<rparr>) k1 = Some i1"
    "machineNetworkMapv2 (m\<lparr>networkController := ns\<rparr>) k2 = Some i2" "k1 \<noteq> k2"
  with routed_distinct[OF rt, of k1 x1 k2 x2 i1 i2] show "if_IP i1 \<noteq> if_IP i2" by simp
qed

text \<open>
  The invariant of a scale-down from the store \<open>m0\<close> by \<open>k\<close> goroutines whose choices are kept: each
  machine that is no longer a replica is held by one goroutine, still registered as long as that one
  has only marked it, and deregistered after.
\<close>

fun held :: "goroutine \<Rightarrow> string option" where
  "held (Marked mc) = Some (mc_UID mc)" | "held (Deregistered mc iface) = Some (mc_UID mc)" | "held g = None"

definition waiting_uids :: "goroutine list \<Rightarrow> string set" where
  "waiting_uids gs = {mc_UID mc | mc. Marked mc \<in> set gs}"

definition goroutine_ok :: "'n MachineStore \<Rightarrow> string \<Rightarrow> goroutine \<Rightarrow> bool" where
  "goroutine_ok m service g = (case g of
      Marked mc \<Rightarrow> marked_ok m service mc
    | Deregistered mc iface \<Rightarrow> marked_ok m service mc \<and> 15 \<le> length (if_IfName iface)
    | _ \<Rightarrow> g = Ready \<or> g = Finished)"

definition addresses :: "'n MachineStore \<Rightarrow> string set \<Rightarrow> IP set" where
  "addresses m keys = {if_IP i | k i. k \<in> keys \<and> machineNetworkMapv2 m k = Some i}"

definition kept_inv ::
  "('n \<Rightarrow> string \<Rightarrow> IP list) \<Rightarrow> ('n \<Rightarrow> bool) \<Rightarrow> (IP \<Rightarrow> bool) \<Rightarrow> string \<Rightarrow> 'n MachineStore \<Rightarrow> nat \<Rightarrow>
   nat list \<Rightarrow> 'n MachineStore \<Rightarrow> goroutine list \<Rightarrow> bool" where
  "kept_inv pool ctl_ok plain service m0 k begun m gs \<longleftrightarrow>
     length gs = k \<and> store_ok pool ctl_ok plain m \<and> healthChecklock m = healthChecklock m0 \<and>
     (\<forall>i < k. gs ! i = Ready \<longleftrightarrow> i \<notin> set begun) \<and>
     (\<forall>g\<in>set gs. goroutine_ok m service g) \<and>
     (\<forall>i < k. \<forall>j < k. i \<noteq> j \<longrightarrow> held (gs ! i) \<noteq> None \<longrightarrow> held (gs ! i) \<noteq> held (gs ! j)) \<and>
     replica_set m service \<subseteq> replica_set m0 service \<and>
     card (replica_set m service) + card ({..<k} \<inter> set begun) = card (replica_set m0 service) \<and>
     waiting_uids gs \<subseteq> replica_set m0 service \<and>
     (\<forall>key \<in> replica_set m service \<union> waiting_uids gs. machineNetworkMapv2 m key = machineNetworkMapv2 m0 key) \<and>
     set (pool (networkController m) service) = set (pool (networkController m0) service) -
       addresses m0 (replica_set m0 service - replica_set m service - waiting_uids gs) \<and>
     (\<forall>svc. svc \<noteq> service \<longrightarrow> replica_set m svc = replica_set m0 svc \<and>
        pool (networkController m) svc = pool (networkController m0) svc)"

lemma kept_invD:
  assumes "kept_inv pool ctl_ok plain service m0 k begun m gs"
  shows "length gs = k" "store_ok pool ctl_ok plain m" "healthChecklock m = healthChecklock m0"
    "i < k \<Longrightarrow> gs ! i = Ready \<longleftrightarrow> i \<notin> set begun" "g \<in> set gs \<Longrightarrow> goroutine_ok m service g"
    "i < k \<Longrightarrow> j < k \<Longrightarrow> i \<noteq> j \<Longrightarrow> held (gs ! i) \<noteq> None \<Longrightarrow> held (gs ! i) \<noteq> held (gs ! j)"
    "replica_set m service \<subseteq> replica_set m0 service"
    "card (replica_set m service) + card ({..<k} \<inter> set begun) = card (replica_set m0 service)"
    "waiting_uids gs \<subseteq> replica_set m0 service"
    "key \<in> replica_set m service \<union> waiting_uids gs \<Longrightarrow> machineNetworkMapv2 m key = machineNetworkMapv2 m0 key"
    "set (pool (networkController m) service) = set (pool (networkController m0) service) -
       addresses m0 (replica_set m0 service - replica_set m service - waiting_uids gs)"
    "svc \<noteq> service \<Longrightarrow> replica_set m svc = replica_set m0 svc"
    "svc \<noteq> service \<Longrightarrow> pool (networkController m) svc = pool (networkController m0) svc"
  using assms by (simp_all add: kept_inv_def)

lemma held_not_replica:
  assumes "goroutine_ok m service g" and "held g = Some key"
  shows "key \<notin> replica_set m svc"
proof -
  from assms obtain mc where "mc_UID mc = key" "marked_ok m service mc" by (cases g) (auto simp: goroutine_ok_def)
  with not_replica[of m mc svc] show ?thesis by (simp add: marked_ok_def)
qed

lemma waiting_held: "key \<in> waiting_uids gs \<longleftrightarrow> (\<exists>i mc. i < length gs \<and> gs ! i = Marked mc \<and> mc_UID mc = key)"
  by (auto simp: waiting_uids_def in_set_conv_nth)

text \<open>Replicas of a service in order have different addresses, each registered.\<close>

lemma replica_route:
  assumes rt: "routed pool plain m" and key: "key \<in> replica_set m svc"
  obtains iface where "machineNetworkMapv2 m key = Some iface" and "plain (if_IP iface)"
    and "if_IP iface \<in> set (pool (networkController m) svc)" and "15 \<le> length (if_IfName iface)"
proof -
  from key obtain mc where "machineInstanceMapv2 m key = Some mc" "is_running mc" "service_of m mc = svc"
    by (auto simp: replica_set_def serves_def split: option.splits)
  with routedD[OF rt this(1,2)] that show thesis by metis
qed

lemma replica_addresses_distinct:
  assumes rt: "routed pool plain m" and "k1 \<in> replica_set m svc" and "k2 \<in> replica_set m svc" and "k1 \<noteq> k2"
    and "machineNetworkMapv2 m k1 = Some i1" and "machineNetworkMapv2 m k2 = Some i2"
  shows "if_IP i1 \<noteq> if_IP i2"
proof -
  from assms(2,3) obtain mc1 mc2 where mc: "machineInstanceMapv2 m k1 = Some mc1" "is_running mc1"
    "machineInstanceMapv2 m k2 = Some mc2" "is_running mc2"
    by (auto simp: replica_set_def serves_def split: option.splits)
  show ?thesis by (rule routed_distinct[OF rt mc(1,3,2,4) assms(5,6,4)])
qed

lemma waiting_update:
  assumes "i < length gs" and "\<And>mc. gs ! i \<noteq> Marked mc"
  shows "waiting_uids (gs[i := g]) = waiting_uids gs \<union> (case g of Marked mc \<Rightarrow> {mc_UID mc} | _ \<Rightarrow> {})"
proof -
  have "Marked mc \<in> set (gs[i := g]) \<longleftrightarrow> g = Marked mc \<or> Marked mc \<in> set gs" for mc
  proof
    assume "g = Marked mc \<or> Marked mc \<in> set gs"
    then show "Marked mc \<in> set (gs[i := g])"
    proof
      assume "Marked mc \<in> set gs"
      then obtain j where j: "j < length gs" "gs ! j = Marked mc" by (auto simp: in_set_conv_nth)
      then have "j \<noteq> i" using assms(2) by auto
      with j show ?thesis by (metis length_list_update nth_list_update_neq nth_mem)
    qed (use assms(1) in \<open>auto simp: set_update_memI\<close>)
  qed (auto dest: set_update_cases)
  then show ?thesis by (cases g) (auto simp: waiting_uids_def)
qed

text \<open>A goroutine chooses a replica and marks it.\<close>

lemma kept_choice:
  assumes inv: "kept_inv pool ctl_ok plain service m0 k begun m gs" and i: "i < length gs" "i \<notin> set begun"
    and key: "machineInstanceMapv2 m key = Some mc" "key \<in> replica_set m service"
  shows "kept_inv pool ctl_ok plain service m0 k (i # begun) (mark_machine mc m)
    (gs[i := Marked (mc\<lparr>mc_State := MachineStateUnknown\<rparr>)])"
proof -
  note K = kept_invD[OF inv]
  let ?m = "mark_machine mc m" and ?u = "mc\<lparr>mc_State := MachineStateUnknown\<rparr>"
  let ?gs = "gs[i := Marked (mc\<lparr>mc_State := MachineStateUnknown\<rparr>)]"
  have keyed: "keyed m" and fin: "finite (dom (machineInstanceMapv2 m))" and rt: "routed pool plain m"
    using K(2) by (simp_all add: store_ok_def)
  have uid: "mc_UID mc = key" by (rule keyedD[OF keyed key(1)])
  have svc: "service_of m mc = service" "is_running mc" using replica_service[OF key(2,1)] by simp_all
  have ready: "gs ! i = Ready" using K(4)[of i] i K(1) by simp
  have reps: "replica_set ?m s = replica_set m s - {key}" for s by (simp add: mark_replica_set uid)
  have other: "key \<notin> replica_set m s" if "s \<noteq> service" for s using replica_service[OF _ key(1), of s] svc that by auto
  have held: "held g \<noteq> Some key" if "g \<in> set gs" for g using held_not_replica[OF K(5)[OF that], of key service] key(2) by blast
  have wait: "waiting_uids ?gs = insert key (waiting_uids gs)" using waiting_update[OF i(1)] ready by (simp add: uid)
  have new: "key \<notin> waiting_uids gs"
  proof
    assume "key \<in> waiting_uids gs"
    then obtain x where "Marked x \<in> set gs" "mc_UID x = key" by (auto simp: waiting_uids_def)
    with held[of "Marked x"] show False by simp
  qed
  have "routed pool plain ?m"
    by (rule routed_update[OF rt key(1), of ?u]) (simp_all add: uid)
  then have ok: "store_ok pool ctl_ok plain ?m" using K(2) mark_keyed[OF keyed] by (simp add: store_ok_def)
  have marked: "marked_ok ?m service x" if "marked_ok m service x" for x
    using mark_target_ok[of m service "Marked x" mc] that svc(1) by (simp add: target_ok_def)
  have gok: "goroutine_ok ?m service g" if "g \<in> set ?gs" for g
  proof (cases "g \<in> set gs")
    case True
    have "goroutine_ok m service g" by (rule K(5)[OF True])
    with marked show ?thesis by (cases g) (simp_all add: goroutine_ok_def)
  next
    case False
    then have "g = Marked ?u" using that set_update_cases by metis
    then show ?thesis using svc(1) by (simp add: goroutine_ok_def marked_ok_def service_of_def current_object_def)
  qed
  have distinct: "held (?gs ! a) \<noteq> held (?gs ! b)" if "a < k" "b < k" "a \<noteq> b" "held (?gs ! a) \<noteq> None" for a b
    using that K(6)[of a b] held[OF nth_mem[of b gs]] held[OF nth_mem[of a gs]] i K(1)
    by (auto simp: nth_list_update uid)
  have "finite (replica_set m service)" using fin by (rule finite_replica_set)
  then have "Suc (card (replica_set ?m service)) = card (replica_set m service)"
    unfolding reps using card_Suc_Diff1 key(2) by metis
  moreover have "{..<k} \<inter> set (i # begun) = insert i ({..<k} \<inter> set begun)" using i K(1) by auto
  ultimately have card: "card (replica_set ?m service) + card ({..<k} \<inter> set (i # begun)) = card (replica_set m0 service)"
    using K(8) i by simp
  have left: "replica_set m0 service - replica_set ?m service - waiting_uids ?gs =
      replica_set m0 service - replica_set m service - waiting_uids gs"
    using new key(2) by (auto simp: reps wait)
  have net: "machineNetworkMapv2 ?m x = machineNetworkMapv2 m0 x" if "x \<in> replica_set ?m service \<union> waiting_uids ?gs" for x
    using that K(10)[of x] key(2) by (auto simp: reps wait)
  have begun: "?gs ! a = Ready \<longleftrightarrow> a \<notin> set (i # begun)" if "a < k" for a
    using K(4)[OF that] i by (cases "a = i") auto
  have sub: "replica_set ?m service \<subseteq> replica_set m0 service" "waiting_uids ?gs \<subseteq> replica_set m0 service"
    using K(7,9) key(2) by (auto simp: reps wait)
  show ?thesis
    unfolding kept_inv_def left
    using ok gok distinct card net begun sub K(1,3,11-13) other by (auto simp: reps)
qed

context network_controller
begin

text \<open>A goroutine has the address of its machine deregistered.\<close>

lemma kept_deregister:
  assumes inv: "kept_inv pool nc_inv plain service m0 k begun m gs" and ok0: "store_ok pool nc_inv plain m0"
    and i: "i < length gs" "gs ! i = Marked mc" and works: "destroy_works env"
  shows "\<exists>g m'. delete_step nc env order_of service (gs ! i) m = (Ret g, m') \<and>
    kept_inv pool nc_inv plain service m0 k begun m' (gs[i := g])"
proof -
  note K = kept_invD[OF inv]
  let ?obj = "current_object m mc" and ?key = "mc_UID mc"
  have keyed: "keyed m" and rt: "routed pool plain m" and ctl: "nc_inv (networkController m)"
    using K(2) by (simp_all add: store_ok_def)
  have rt0: "routed pool plain m0" using ok0 by (simp add: store_ok_def)
  have ik: "i < k" using i K(1) by simp
  have marked: "marked_ok m service mc" using K(5)[OF nth_mem[OF i(1)]] i(2) by (simp add: goroutine_ok_def)
  have wait: "?key \<in> waiting_uids gs" using i by (auto simp: waiting_held)
  have rep0: "?key \<in> replica_set m0 service" using K(9) wait by blast
  have gone: "?key \<notin> replica_set m s" for s using held_not_replica[OF K(5)[OF nth_mem[OF i(1)]], of ?key] i(2) by simp
  obtain iface where iface0: "machineNetworkMapv2 m0 ?key = Some iface" and pl: "plain (if_IP iface)"
    and reg0: "if_IP iface \<in> set (pool (networkController m0) service)" and len: "15 \<le> length (if_IfName iface)"
    by (rule replica_route[OF rt0 rep0])
  have iface: "machineNetworkMapv2 m ?key = Some iface" using K(10)[of ?key] wait iface0 by simp
  have other_ip: "if_IP x \<noteq> if_IP iface" if "x_key \<in> replica_set m0 service" "x_key \<noteq> ?key"
    "machineNetworkMapv2 m0 x_key = Some x" for x x_key
    by (rule replica_addresses_distinct[OF rt0 that(1) rep0 that(2,3) iface0])
  have reg: "if_IP iface \<in> set (pool (networkController m) service)"
  proof -
    have "if_IP iface \<notin> addresses m0 (replica_set m0 service - replica_set m service - waiting_uids gs)"
    proof
      assume "if_IP iface \<in> addresses m0 (replica_set m0 service - replica_set m service - waiting_uids gs)"
      then obtain x j where x: "x \<in> replica_set m0 service" "x \<notin> waiting_uids gs" "machineNetworkMapv2 m0 x = Some j"
        "if_IP iface = if_IP j" by (auto simp: addresses_def)
      with other_ip[of x j] wait show False by auto
    qed
    with reg0 show ?thesis unfolding K(11) by simp
  qed
  from delete_pool[OF ctl pl reg] obtain e ns where
    del: "DeleteServiceIP nc service (if_IP iface) (networkController m) = (Ret e, ns)"
    and ns: "nc_inv ns" "pool ns = (pool (networkController m))(service :=
      filter (\<lambda>x. x \<noteq> if_IP iface) (pool (networkController m) service))" by blast
  let ?m = "m\<lparr>networkController := ns\<rparr>"
  define g where "g = (case e of Some err \<Rightarrow> Finished | None \<Rightarrow> Deregistered mc iface)"
  have "mc_UID ?obj = ?key" "service_of m ?obj = service"
    using current_object_uid[OF keyed] marked by (simp_all add: marked_ok_def)
  then have step: "delete_step nc env order_of service (gs ! i) m = (Ret g, ?m)"
    using works i(2) iface del
    by (cases e) (simp_all add: deregister_machine_def destroy_works_def on_controller_def go_return_def g_def)
  have held: "held g = None \<or> held g = Some ?key" "\<And>x. g \<noteq> Marked x" "g \<noteq> Ready" by (cases e; simp add: g_def)+
  have sole: "held (gs ! j) \<noteq> Some ?key" if "j < k" "j \<noteq> i" for j
    using K(6)[OF ik that(1)] that(2) i(2) by force
  have waiting': "waiting_uids (gs[i := g]) = waiting_uids gs - {?key}"
  proof (rule set_eqI)
    fix x
    show "x \<in> waiting_uids (gs[i := g]) \<longleftrightarrow> x \<in> waiting_uids gs - {?key}"
    proof
      assume "x \<in> waiting_uids (gs[i := g])"
      then obtain j y where j: "j < length gs" "gs[i := g] ! j = Marked y" "mc_UID y = x" by (auto simp: waiting_held)
      with held(2) have "j \<noteq> i" by auto
      with j sole[of j] K(1) show "x \<in> waiting_uids gs - {?key}" by (auto simp: waiting_held)
    next
      assume "x \<in> waiting_uids gs - {?key}"
      then obtain j y where j: "j < length gs" "gs ! j = Marked y" "mc_UID y = x" "x \<noteq> ?key" by (auto simp: waiting_held)
      then have "j \<noteq> i" using i(2) by auto
      with j have "gs[i := g] ! j = Marked y" by simp
      with j show "x \<in> waiting_uids (gs[i := g])" unfolding waiting_held by (intro exI[of _ j] exI[of _ y]) simp
    qed
  qed
  have sv: "service_of ?m x = service_of m x" for x by (simp add: service_of_def)
  have mok: "marked_ok ?m service x \<longleftrightarrow> marked_ok m service x" for x by (simp add: marked_ok_def sv current_object_def)
  have "goroutine_ok ?m service x \<longleftrightarrow> goroutine_ok m service x" for x by (cases x) (simp_all add: goroutine_ok_def mok)
  moreover have "goroutine_ok ?m service g" using marked len by (cases e) (simp_all add: g_def goroutine_ok_def mok)
  ultimately have gok: "goroutine_ok ?m service x" if "x \<in> set (gs[i := g])" for x
    using that K(5)[of x] set_update_cases by metis
  have "routed pool plain ?m"
  proof (rule routed_deregister[OF rt ns(2)])
    fix x j assume x: "x \<in> replica_set m service" "machineNetworkMapv2 m x = Some j"
    then show "if_IP j \<noteq> if_IP iface" using other_ip[of x j] K(7) K(10)[of x] gone[of service] by auto
  qed
  then have ok: "store_ok pool nc_inv plain ?m" using K(2) ns(1) by (simp add: store_ok_def keyed_def)
  have distinct: "held (gs[i := g] ! a) \<noteq> held (gs[i := g] ! b)" if "a < k" "b < k" "a \<noteq> b" "held (gs[i := g] ! a) \<noteq> None" for a b
    using that K(6)[of a b] sole[of a] sole[of b] held(1) i K(1) by (auto simp: nth_list_update)
  have "replica_set m0 service - replica_set m service - (waiting_uids gs - {?key}) =
      insert ?key (replica_set m0 service - replica_set m service - waiting_uids gs)"
    using rep0 gone by auto
  moreover have "addresses m0 (insert ?key X) = insert (if_IP iface) (addresses m0 X)" for X
    using iface0 by (auto simp: addresses_def)
  ultimately have pool': "set (pool ns service) = set (pool (networkController m0) service) -
      addresses m0 (replica_set m0 service - replica_set ?m service - waiting_uids (gs[i := g]))"
    using K(11) by (auto simp: ns(2) waiting')
  have begun: "gs[i := g] ! a = Ready \<longleftrightarrow> a \<notin> set begun" if "a < k" for a
    using K(4)[OF that] K(4)[OF ik] i held(3) by (cases "a = i") auto
  have net: "machineNetworkMapv2 ?m x = machineNetworkMapv2 m0 x"
    if "x \<in> replica_set ?m service \<union> waiting_uids (gs[i := g])" for x
    using that K(10)[of x] by (auto simp: waiting')
  have sub: "replica_set ?m service \<subseteq> replica_set m0 service" "waiting_uids (gs[i := g]) \<subseteq> replica_set m0 service"
    using K(7,9) by (auto simp: waiting')
  have card: "card (replica_set ?m service) + card ({..<k} \<inter> set begun) = card (replica_set m0 service)"
    using K(8) by simp
  have others: "replica_set ?m svc = replica_set m0 svc \<and>
      pool (networkController ?m) svc = pool (networkController m0) svc" if "svc \<noteq> service" for svc
    using K(12,13)[OF that] that by (simp add: ns(2))
  have pool_m: "set (pool (networkController ?m) service) = set (pool (networkController m0) service) -
      addresses m0 (replica_set m0 service - replica_set ?m service - waiting_uids (gs[i := g]))"
    using pool' by simp
  have "kept_inv pool nc_inv plain service m0 k begun ?m (gs[i := g])"
    unfolding kept_inv_def
    by (intro conjI allI impI ballI) (use ok gok distinct begun net sub card others pool_m K(1,3) in \<open>simp_all\<close>)
  with step show ?thesis by blast
qed

text \<open>A goroutine stops its machine.\<close>

lemma kept_stop:
  assumes inv: "kept_inv pool nc_inv plain service m0 k begun m gs"
    and i: "i < length gs" "gs ! i = Deregistered mc iface" and works: "destroy_works env"
  shows "\<exists>g m'. delete_step nc env order_of service (gs ! i) m = (Ret g, m') \<and>
    kept_inv pool nc_inv plain service m0 k begun m' (gs[i := g])"
proof -
  note K = kept_invD[OF inv]
  let ?obj = "current_object m mc" and ?key = "mc_UID mc" and ?stopped = "fst (machine_Stop env (current_object m mc))"
  have keyed: "keyed m" and rt: "routed pool plain m" using K(2) by (simp_all add: store_ok_def)
  have ik: "i < k" using i K(1) by simp
  have sok: "service_ok env" using works by (simp add: destroy_works_def)
  have marked: "marked_ok m service mc" and len: "15 \<le> length (if_IfName iface)"
    using K(5)[OF nth_mem[OF i(1)]] i(2) by (simp_all add: goroutine_ok_def)
  have gone: "?key \<notin> replica_set m s" for s using held_not_replica[OF K(5)[OF nth_mem[OF i(1)]], of ?key] i(2) by simp
  have uid: "mc_UID ?obj = ?key" by (rule current_object_uid[OF keyed])
  obtain e m' where st: "stop_machine env ?obj iface m = (Ret e, m')" using stop_machine_returns[OF len] by blast
  note fr = stop_machine_frame[OF st uid]
  have nr: "\<not> is_running ?stopped" using marked service_okD(13)[OF sok] by (simp add: marked_ok_def)
  have own: "\<not> is_running x" if "machineInstanceMapv2 m' ?key = Some x" for x
  proof -
    have "machineInstanceMapv2 m ?key = Some x \<Longrightarrow> \<not> is_running x"
      using marked by (simp add: marked_ok_def current_object_def)
    with that fr nr show ?thesis by auto
  qed
  have reps: "replica_set m' s = replica_set m s" for s
    by (rule stopped_replica_set[where mId = ?key and obj = ?stopped]) (use fr nr gone in blast)+
  have keyed': "keyed m'"
    by (rule stopped_keyed[where mId = ?key and obj = ?stopped and m = m])
      (use fr uid service_okD(3)[OF sok, of ?obj] keyed in simp_all)
  have rt': "routed pool plain m'" by (rule routed_stopped[OF rt _ own]) (use fr in simp_all)
  have "dom (machineInstanceMapv2 m') \<subseteq> insert ?key (dom (machineInstanceMapv2 m))" using fr by (auto simp: dom_def)
  then have "finite (dom (machineInstanceMapv2 m'))"
    using K(2) by (meson finite.insertI finite_subset store_ok_def)
  then have ok: "store_ok pool nc_inv plain m'" using K(2) keyed' rt' fr by (simp add: store_ok_def)
  have sole: "held (gs ! j) \<noteq> Some ?key" if "j < k" "j \<noteq> i" for j
    using K(6)[OF ik that(1)] that(2) i(2) by force
  have wait: "waiting_uids (gs[i := Finished]) = waiting_uids gs" using waiting_update[OF i(1), of Finished] i(2) by simp
  have not_waiting: "?key \<notin> waiting_uids gs"
  proof
    assume "?key \<in> waiting_uids gs"
    then obtain j y where "j < length gs" "gs ! j = Marked y" "mc_UID y = ?key" by (auto simp: waiting_held)
    with sole[of j] i K(1) show False by (cases "j = i") auto
  qed
  have mok: "marked_ok m' service x" if "marked_ok m service x" "mc_UID x \<noteq> ?key" for x
    using that fr by (simp add: marked_ok_def service_of_def current_object_def)
  have gok: "goroutine_ok m' service g" if "g \<in> set (gs[i := Finished])" for g
  proof -
    from that obtain j where j: "j < length gs" "g = gs[i := Finished] ! j" by (auto simp: in_set_conv_nth)
    show ?thesis
    proof (cases "j = i")
      case True
      with j show ?thesis by (simp add: goroutine_ok_def)
    next
      case False
      with j have g: "g = gs ! j" by simp
      have "held g \<noteq> Some ?key" using sole[of j] False j(1) K(1) by (simp add: g)
      moreover have "goroutine_ok m service g" using K(5)[of g] j(1) by (simp add: g)
      ultimately show ?thesis using mok by (cases g) (auto simp: goroutine_ok_def)
    qed
  qed
  have distinct: "held (gs[i := Finished] ! a) \<noteq> held (gs[i := Finished] ! b)"
    if "a < k" "b < k" "a \<noteq> b" "held (gs[i := Finished] ! a) \<noteq> None" for a b
    using that K(6)[of a b] i K(1) by (auto simp: nth_list_update)
  have net: "machineNetworkMapv2 m' x = machineNetworkMapv2 m0 x" if "x \<in> replica_set m service \<union> waiting_uids gs" for x
  proof -
    have "x \<noteq> ?key" using that not_waiting gone by auto
    with fr K(10)[OF that] show ?thesis by simp
  qed
  have begun: "gs[i := Finished] ! a = Ready \<longleftrightarrow> a \<notin> set begun" if "a < k" for a
    using K(4)[OF that] K(4)[OF ik] i by (cases "a = i") auto
  have "kept_inv pool nc_inv plain service m0 k begun m' (gs[i := Finished])"
    unfolding kept_inv_def
    using ok gok distinct begun net K(1,3,7-9,11-13) fr by (simp add: wait reps)
  moreover have "delete_step nc env order_of service (gs ! i) m = (Ret Finished, m')"
    using i(2) st by (simp add: go_return_def)
  ultimately show ?thesis by blast
qed

text \<open>The goroutines of a scale-down under a schedule that keeps their choices.\<close>

lemma delete_goroutines:
  assumes ok: "store_ok pool nc_inv plain m" and works: "\<forall>i. destroy_works (envs i) \<and> valid_order (orders i)"
    and k: "k \<le> card (replica_set m service)" and kept: "choices_kept [] sched"
  shows "\<exists>m'. run_goroutines (\<lambda>i. delete_step nc (envs i) (orders i) service) sched k m = (Ret (), m') \<and>
    store_ok pool nc_inv plain m' \<and> healthChecklock m' = healthChecklock m \<and>
    replica_set m' service \<subseteq> replica_set m service \<and> card (replica_set m' service) + k = card (replica_set m service) \<and>
    set (pool (networkController m') service) = set (pool (networkController m) service) -
      addresses m (replica_set m service - replica_set m' service) \<and>
    (\<forall>svc. svc \<noteq> service \<longrightarrow> replica_set m' svc = replica_set m svc \<and>
       pool (networkController m') svc = pool (networkController m) svc)"
proof -
  let ?step = "\<lambda>i. delete_step nc (envs i) (orders i) service" and ?J = "kept_inv pool nc_inv plain service m k"
  have "waiting_uids (replicate k Ready) = {}" by (auto simp: waiting_uids_def)
  then have start: "?J [] m (replicate k Ready)"
    using ok by (simp add: kept_inv_def goroutine_ok_def addresses_def)
  have later: "\<exists>g m2. ?step i (gs ! i) m1 = (Ret g, m2) \<and> ?J begun m2 (gs[i := g])"
    if J: "?J begun m1 gs" and b: "i \<in> set begun" and i: "i < length gs" for begun m1 gs i
  proof (cases "gs ! i")
    case (Marked mc)
    with kept_deregister[OF J ok i Marked] works show ?thesis by blast
  next
    case (Deregistered mc iface)
    with kept_stop[OF J i Deregistered] works show ?thesis by blast
  next
    case Finished
    with J list_update_id[of gs i] show ?thesis by (auto simp: go_return_def)
  qed (use kept_invD(5)[OF J nth_mem[OF i]] kept_invD(1,4)[OF J] b i in \<open>auto simp: goroutine_ok_def\<close>)
  have first: "\<exists>g1 m2 g2 m3. ?step i (gs ! i) m1 = (Ret g1, m2) \<and> ?step i g1 m2 = (Ret g2, m3) \<and> ?J (i # begun) m3 (gs[i := g2])"
    if J: "?J begun m1 gs" and b: "i \<notin> set begun" and i: "i < length gs" for begun m1 gs i
  proof -
    note K = kept_invD[OF J]
    have keyed: "keyed m1" and fin: "finite (dom (machineInstanceMapv2 m1))" using K(2) by (simp_all add: store_ok_def)
    have ord: "range_order (machineInstanceMapv2 m1) (orders i (machineInstanceMapv2 m1))"
      using works fin by (simp add: valid_order_def)
    have "{..<k} \<inter> set begun \<subset> {..<k}" using b i K(1) by auto
    then have "card ({..<k} \<inter> set begun) < k" using psubset_card_mono[of "{..<k}"] by simp
    then have "replica_set m1 service \<noteq> {}" using K(8) k by auto
    with ord obtain key mc where mc: "key \<in> replica_set m1 service" "machineInstanceMapv2 m1 key = Some mc"
        "getFunctionMachine (orders i (machineInstanceMapv2 m1)) service m1 = Inr mc"
      by (cases rule: getFunctionMachine_cases[of m1 "orders i (machineInstanceMapv2 m1)" service]) auto
    have ready: "gs ! i = Ready" using K(1,4) i b by simp
    have "current_object m1 mc = mc" by (rule chosen_current[OF keyed ord mc(3)])
    with kept_choice[OF J i b mc(2,1)] ready mc(3) show ?thesis by (simp add: choose_machine_def Let_def)
  qed
  have outside: "?J (i # begun) m1 gs" if J: "?J begun m1 gs" and i: "\<not> i < length gs" for begun m1 gs i
  proof -
    have "{..<k} \<inter> set (i # begun) = {..<k} \<inter> set begun" "\<And>a. a < k \<Longrightarrow> a \<in> set (i # begun) \<longleftrightarrow> a \<in> set begun"
      using i kept_invD(1)[OF J] by auto
    with J show ?thesis by (simp add: kept_inv_def)
  qed
  from interleave_kept[where J = ?J and step = ?step, OF start choices_kept_remaining[OF kept, of k] later first outside]
  obtain gs m' begun where run: "interleave ?step (sched @ remaining_steps k) (replicate k Ready) m = (Ret gs, m')"
    and J: "?J begun m' gs" by blast
  note K = kept_invD[OF J]
  have ended: "g = Finished" if "g \<in> set gs" for g
  proof -
    have "delete_left g = 0"
      by (rule goroutines_end[where left = delete_left and step = ?step, OF _ _ _ run that]) (auto dest: delete_step_left)
    with K(5)[OF that] show ?thesis by (cases g) (simp_all add: goroutine_ok_def)
  qed
  have "{..<k} \<inter> set begun = {..<k}"
  proof -
    have "a \<in> set begun" if "a < k" for a using ended[OF nth_mem[of a gs]] K(1) K(4)[of a] that by force
    then show ?thesis by auto
  qed
  moreover have "waiting_uids gs = {}" using ended by (auto simp: waiting_uids_def)
  moreover have "Stuck \<notin> set gs" using ended by auto
  ultimately show ?thesis
    using run K ended by (intro exI[of _ m']) (auto simp: run_goroutines_def)
qed

lemma store_ok_healthlock [simp]: "store_ok pool nc_inv plain (m\<lparr>healthChecklock := b\<rparr>) = store_ok pool nc_inv plain m"
  by (simp add: store_ok_def keyed_def routed_def service_of_def)

lemma scale_down:
  fixes replicas :: "64 word"
  assumes ok: "store_ok pool nc_inv plain m" and free: "\<not> healthChecklock m"
    and ord: "range_order (machineInstanceMapv2 m) order"
    and le: "unat replicas \<le> card (replica_set m service)" and small: "card (replica_set m service) < 2 ^ 64"
    and works: "\<forall>i. destroy_works (envs i) \<and> valid_order (orders i)" and kept: "choices_kept [] sched"
  shows "\<exists>m'. ScaleMachinesTo nc envs orders sched order service replicas m = (Ret None, m') \<and>
    card (replica_set m' service) = unat replicas \<and> replica_set m' service \<subseteq> replica_set m service \<and>
    store_ok pool nc_inv plain m' \<and> \<not> healthChecklock m' \<and>
    set (pool (networkController m') service) = set (pool (networkController m) service) -
      addresses m (replica_set m service - replica_set m' service) \<and>
    (\<forall>svc. svc \<noteq> service \<longrightarrow> replica_set m' svc = replica_set m svc \<and>
       pool (networkController m') svc = pool (networkController m) svc)"
proof -
  let ?c = "card (replica_set m service)" and ?m = "m\<lparr>healthChecklock := True\<rparr>"
  have curr: "unat (GetReplicas order service m) = ?c" by (rule GetReplicas_unat[OF ord small])
  then have ge: "\<not> GetReplicas order service m < replicas" using le by (simp add: word_less_nat_alt)
  then have diff: "unat (GetReplicas order service m - replicas) = ?c - unat replicas"
    using curr by (simp add: unat_sub)
  let ?run = "run_goroutines (\<lambda>i. delete_step nc (envs i) (orders i) service) sched (?c - unat replicas)"
  have "store_ok pool nc_inv plain ?m" using ok by simp
  from delete_goroutines[OF this works _ kept, of "?c - unat replicas" service] obtain m' where
    run: "?run ?m = (Ret (), m')" and r: "store_ok pool nc_inv plain m'" "replica_set m' service \<subseteq> replica_set m service"
      "card (replica_set m' service) + (?c - unat replicas) = ?c"
      "set (pool (networkController m') service) = set (pool (networkController m) service) -
        addresses m (replica_set m service - replica_set m' service)"
      "\<forall>svc. svc \<noteq> service \<longrightarrow> replica_set m' svc = replica_set m svc \<and>
        pool (networkController m') svc = pool (networkController m) svc"
    by (auto simp: addresses_def)
  have "(if replicas < GetReplicas order service m
      then run_goroutines (\<lambda>i. delete_step nc (envs i) (orders i) service) sched (unat (GetReplicas order service m - replicas))
      else go_return ()) ?m = (Ret (), m') \<or> (?c = unat replicas \<and> \<not> replicas < GetReplicas order service m)"
    using run curr le by (auto simp: diff word_less_nat_alt)
  then show ?thesis
  proof (elim disjE conjE)
    assume "(if replicas < GetReplicas order service m
      then run_goroutines (\<lambda>i. delete_step nc (envs i) (orders i) service) sched (unat (GetReplicas order service m - replicas))
      else go_return ()) ?m = (Ret (), m')"
    then have "ScaleMachinesTo nc envs orders sched order service replicas m = (Ret None, m'\<lparr>healthChecklock := False\<rparr>)"
      using free ge by (simp add: ScaleMachinesTo_def Let_def)
    with r le show ?thesis by (intro exI[of _ "m'\<lparr>healthChecklock := False\<rparr>"]) simp
  next
    assume same: "?c = unat replicas" "\<not> replicas < GetReplicas order service m"
    have "m\<lparr>healthChecklock := False\<rparr> = m" using free by (cases m) simp
    then have "ScaleMachinesTo nc envs orders sched order service replicas m = (Ret None, m)"
      using free ge same(2) by (simp add: ScaleMachinesTo_def Let_def go_return_def)
    with same(1) ok free show ?thesis by (intro exI[of _ m]) (simp add: addresses_def)
  qed
qed

end

section \<open>Properties of scaling down\<close>

text \<open>
  With the internal controller, scaling down returns nil with exactly the target number of replicas
  when every destroy works and the schedule keeps the choices of the goroutines; from the service's
  pool exactly the addresses of the stopped machines have gone, and other services keep replicas and
  addresses.
\<close>

theorem internal_scale_down_reaches_target:
  fixes replicas :: "64 word"
  assumes "store_ok (listed randomLB) (int_wf randomLB NewRandomLoadBalancer rlb_inv) (\<lambda>_. True) m"
    and "\<not> healthChecklock m" and "range_order (machineInstanceMapv2 m) order"
    and "unat replicas \<le> card (replica_set m service)" and "card (replica_set m service) < 2 ^ 64"
    and "\<forall>i. destroy_works (envs i) \<and> valid_order (orders i)" and "choices_kept [] sched"
  shows "\<exists>m'. ScaleMachinesTo (internalController env randomLB) envs orders sched order service replicas m = (Ret None, m') \<and>
    card (replica_set m' service) = unat replicas \<and> replica_set m' service \<subseteq> replica_set m service \<and>
    store_ok (listed randomLB) (int_wf randomLB NewRandomLoadBalancer rlb_inv) (\<lambda>_. True) m' \<and>
    \<not> healthChecklock m' \<and>
    set (listed randomLB (networkController m') service) = set (listed randomLB (networkController m) service) -
      addresses m (replica_set m service - replica_set m' service) \<and>
    (\<forall>svc. svc \<noteq> service \<longrightarrow> replica_set m' svc = replica_set m svc \<and>
       listed randomLB (networkController m') svc = listed randomLB (networkController m) svc)"
  by (rule internal.scale_down[OF assms])

text \<open>
  The same with the caddy controller, whatever the server answers to the reloads.
\<close>

theorem caddy_scale_down_reaches_target:
  fixes replicas :: "64 word"
  assumes "store_ok caddy_pool caddy_inv plain_ip m"
    and "\<not> healthChecklock m" and "range_order (machineInstanceMapv2 m) order"
    and "unat replicas \<le> card (replica_set m service)" and "card (replica_set m service) < 2 ^ 64"
    and "\<forall>i. destroy_works (envs i) \<and> valid_order (orders i)" and "choices_kept [] sched"
  shows "\<exists>m'. ScaleMachinesTo (caddyController env) envs orders sched order service replicas m = (Ret None, m') \<and>
    card (replica_set m' service) = unat replicas \<and> replica_set m' service \<subseteq> replica_set m service \<and>
    store_ok caddy_pool caddy_inv plain_ip m' \<and> \<not> healthChecklock m' \<and>
    set (caddy_pool (networkController m') service) = set (caddy_pool (networkController m) service) -
      addresses m (replica_set m service - replica_set m' service) \<and>
    (\<forall>svc. svc \<noteq> service \<longrightarrow> replica_set m' svc = replica_set m svc \<and>
       caddy_pool (networkController m') svc = caddy_pool (networkController m) svc)"
  by (rule caddy.scale_down[OF assms])

definition sample_net_env :: net_env where
  "sample_net_env = \<lparr>http_Get = (\<lambda>_. Some 200), url_Parse = Inr, rand_draw = (\<lambda>i. i)\<rparr>"

lemma sample_internal:
  obtains ns where "int_wf randomLB NewRandomLoadBalancer rlb_inv ns"
    and "listed randomLB ns = (\<lambda>_. [])(''f'' := [''10.0.0.1'', ''10.0.0.2''])"
proof -
  have "\<forall>opts. \<exists>l. NewRandomLoadBalancer opts = Inr l" using rlb.new_lb by blast
  from int_new_wf[OF this, of randomLB rlb_inv] obtain n0 where
    n0: "int_wf randomLB NewRandomLoadBalancer rlb_inv n0" "listed randomLB n0 = (\<lambda>_. [])" by blast
  from internal.add_pool[OF n0(1), of "''10.0.0.1''" "''f''" sample_net_env] n0(2) obtain e n1 where
    n1: "int_wf randomLB NewRandomLoadBalancer rlb_inv n1" "listed randomLB n1 = (\<lambda>_. [])(''f'' := [''10.0.0.1''])"
    by auto
  from internal.add_pool[OF n1(1), of "''10.0.0.2''" "''f''" sample_net_env] n1(2) obtain e n2 where
    "int_wf randomLB NewRandomLoadBalancer rlb_inv n2"
    "listed randomLB n2 = (\<lambda>_. [])(''f'' := [''10.0.0.1'', ''10.0.0.2''])"
    by auto
  then show thesis by (rule that)
qed

lemma sample_service_of:
  "machineInstanceMapv2 (sample_machines ns) k = Some mc \<Longrightarrow> service_of (sample_machines ns) mc = ''f''"
  by (auto simp: sample_machines_def sample_machine_def service_of_def go_lookup_def service_label_def
      split: if_splits)

lemma sample_routed:
  assumes "set (pool ns ''f'') = {''10.0.0.1'', ''10.0.0.2''}" and "plain ''10.0.0.1''" and "plain ''10.0.0.2''"
  shows "routed pool plain (sample_machines ns)"
proof -
  have "\<exists>iface. machineNetworkMapv2 (sample_machines ns) key = Some iface \<and> plain (if_IP iface) \<and>
      if_IP iface \<in> set (pool ns ''f'') \<and> 15 \<le> length (if_IfName iface)"
    if "machineInstanceMapv2 (sample_machines ns) key = Some mc" for key mc
    using that assms by (auto simp: sample_machines_def sample_iface_def split: if_splits)
  then show ?thesis
    unfolding routed_def using sample_service_of[of ns]
    by (auto simp: sample_machines_def sample_iface_def split: if_splits)
qed

lemma sample_store_ok:
  assumes "set (pool ns ''f'') = {''10.0.0.1'', ''10.0.0.2''}" and "plain ''10.0.0.1''" and "plain ''10.0.0.2''"
    and "ctl_ok ns"
  shows "store_ok pool ctl_ok plain (sample_machines ns)"
proof -
  have "networkController (sample_machines ns) = ns" by (simp add: sample_machines_def)
  with assms sample_routed[of pool ns plain] show ?thesis by (simp add: store_ok_def)
qed

lemma sample_destroy_works: "destroy_works sample_menv"
proof -
  have "machine_service sample_menv = None" by (simp add: machine_service_def sample_menv_def)
  then show ?thesis by (simp add: destroy_works_def)
qed

theorem internal_scale_down_reaches_target_witness:
  "\<exists>ns m'. ScaleMachinesTo (internalController sample_net_env randomLB) (\<lambda>_. sample_menv)
      (\<lambda>_ mp. sorted_list_of_set (dom mp)) [0, 0, 1, 1, 1, 0, 1, 0] [''uid1'', ''uid2''] ''f'' 0 (sample_machines ns) = (Ret None, m') \<and>
    card (replica_set m' ''f'') = 0"
proof (rule sample_internal)
  fix ns
  assume ns: "int_wf randomLB NewRandomLoadBalancer rlb_inv ns"
    "listed randomLB ns = (\<lambda>_. [])(''f'' := [''10.0.0.1'', ''10.0.0.2''])"
  have ok: "store_ok (listed randomLB) (int_wf randomLB NewRandomLoadBalancer rlb_inv) (\<lambda>_. True) (sample_machines ns)"
    by (rule sample_store_ok) (simp_all add: ns)
  have free: "\<not> healthChecklock (sample_machines ns)" by (simp add: sample_machines_def)
  from internal_scale_down_reaches_target[OF ok free sample_order, where replicas = 0 and sched = "[0, 0, 1, 1, 1, 0, 1, 0]" and env = sample_net_env and
      service = "''f''" and envs = "\<lambda>_. sample_menv" and orders = "\<lambda>_ mp. sorted_list_of_set (dom mp)"]
  have "\<exists>m'. ScaleMachinesTo (internalController sample_net_env randomLB) (\<lambda>_. sample_menv)
      (\<lambda>_ mp. sorted_list_of_set (dom mp)) [0, 0, 1, 1, 1, 0, 1, 0] [''uid1'', ''uid2''] ''f'' 0 (sample_machines ns) = (Ret None, m') \<and>
      card (replica_set m' ''f'') = unat (0 :: 64 word)"
    using sample_destroy_works sorted_order_valid by auto
  then show ?thesis by auto
qed

theorem caddy_scale_down_reaches_target_witness:
  "\<exists>ns m'. ScaleMachinesTo (caddyController caddy_example_env) (\<lambda>_. sample_menv)
      (\<lambda>_ mp. sorted_list_of_set (dom mp)) [0, 0, 1, 1, 1, 0, 1, 0] [''uid1'', ''uid2''] ''f'' 0 (sample_machines ns) = (Ret None, m') \<and>
    card (replica_set m' ''f'') = 0"
proof -
  let ?ns = "caddy_example\<lparr>serviceIPCache := [''f'' \<mapsto> [''10.0.0.1:8123'', ''10.0.0.2:8123'']]\<rparr>"
  have pool: "caddy_pool ?ns = (\<lambda>_. [])(''f'' := [''10.0.0.1'', ''10.0.0.2''])"
    by (auto simp: caddy_pool_def url_host_def)
  have "caddy_inv ?ns" unfolding caddy_inv_def pool by auto
  then have ok: "store_ok caddy_pool caddy_inv plain_ip (sample_machines ?ns)"
    by (intro sample_store_ok) (simp_all add: pool plain_ip_def)
  have free: "\<not> healthChecklock (sample_machines ?ns)" by (simp add: sample_machines_def)
  from caddy_scale_down_reaches_target[OF ok free sample_order, where replicas = 0 and sched = "[0, 0, 1, 1, 1, 0, 1, 0]" and env = caddy_example_env and
      service = "''f''" and envs = "\<lambda>_. sample_menv" and orders = "\<lambda>_ mp. sorted_list_of_set (dom mp)"]
  have "\<exists>m'. ScaleMachinesTo (caddyController caddy_example_env) (\<lambda>_. sample_menv)
      (\<lambda>_ mp. sorted_list_of_set (dom mp)) [0, 0, 1, 1, 1, 0, 1, 0] [''uid1'', ''uid2''] ''f'' 0 (sample_machines ?ns) = (Ret None, m') \<and>
      card (replica_set m' ''f'') = unat (0 :: 64 word)"
    using sample_destroy_works sorted_order_valid by auto
  then show ?thesis by auto
qed

section \<open>A new machine becomes reachable\<close>

lemma await_watchdog_answers: "answers (n + d) \<Longrightarrow> \<exists>j. await_watchdog answers n = Some j"
proof (induction d arbitrary: n)
  case 0
  then show ?case by (subst await_watchdog.simps) simp
next
  case (Suc d)
  from Suc.IH[of "Suc n"] Suc.prems obtain j where "await_watchdog answers (Suc n) = Some j" by auto
  then show ?case by (subst await_watchdog.simps) auto
qed

lemma await_watchdog_Some:
  assumes "await_watchdog answers n = Some j"
  shows "answers j"
proof (rule await_watchdog.raw_induct[where P = "\<lambda>answers n j. answers j", OF _ assms])
  fix aw ans n y
  assume ih: "\<And>i b y. aw i b = Some y \<Longrightarrow> i y" and eq: "(if ans n then Some n else aw ans (Suc n)) = Some y"
  show "ans y"
  proof (cases "ans n")
    case True
    with eq show ?thesis by simp
  next
    case False
    with eq have "aw ans (Suc n) = Some y" by simp
    then show ?thesis by (rule ih)
  qed
qed

context network_controller
begin

lemma ready:
  assumes inv: "nc_inv (networkController m)" and waiting: "(svc, ip) \<in> set (pending m)" and ip: "plain ip"
    and fresh: "\<forall>v. ip \<notin> set (pool (networkController m) v)"
    and len: "Suc (length (pool (networkController m) svc)) < 2 ^ 63" and answers: "answers i"
  shows "\<exists>m'. machine_ready nc answers (svc, ip) m = (Ret (), m') \<and> nc_inv (networkController m') \<and>
    pool (networkController m') = (pool (networkController m))(svc := pool (networkController m) svc @ [ip]) \<and>
    pending m' = remove1 (svc, ip) (pending m) \<and> machineInstanceMapv2 m' = machineInstanceMapv2 m"
proof -
  from add_pool[OF inv ip fresh len] obtain e ns where
    ns: "AddServiceIP nc svc ip (networkController m) = (Ret e, ns)" "nc_inv ns"
      "pool ns = (pool (networkController m))(svc := pool (networkController m) svc @ [ip])" by blast
  from await_watchdog_answers[of answers 0 i] answers obtain j where "await_watchdog answers 0 = Some j" by auto
  with ns waiting show ?thesis by (simp add: machine_ready_def on_controller_def go_return_def)
qed

end

text \<open>With the internal controller the address is recorded as its first health check says.\<close>

lemma int_add_health:
  "int_AddServiceIP env L svc ip n = (Ret None, n') \<Longrightarrow> is_healthy n' ip = checkHealth env ip ''''"
  by (auto simp: int_AddServiceIP_def is_healthy_def split: outcome.splits sum.splits)

lemma ready_internal:
  assumes wf: "int_wf randomLB NewRandomLoadBalancer rlb_inv (networkController m)"
    and waiting: "(svc, ip) \<in> set (pending m)" and fresh: "\<forall>v. ip \<notin> set (listed randomLB (networkController m) v)"
    and len: "Suc (length (listed randomLB (networkController m) svc)) < 2 ^ 63" and answers: "answers i"
  obtains ns where "machine_ready (internalController env randomLB) answers (svc, ip) m =
      (Ret (), m\<lparr>pending := remove1 (svc, ip) (pending m), networkController := ns\<rparr>)"
    and "int_wf randomLB NewRandomLoadBalancer rlb_inv ns"
    and "listed randomLB ns = (listed randomLB (networkController m))(svc := listed randomLB (networkController m) svc @ [ip])"
    and "is_healthy ns ip = checkHealth env ip ''''"
proof -
  from rlb.int_add[OF wf fresh len, of env] obtain ns where
    ns: "int_AddServiceIP env randomLB svc ip (networkController m) = (Ret None, ns)"
      "int_wf randomLB NewRandomLoadBalancer rlb_inv ns"
      "listed randomLB ns = (listed randomLB (networkController m))(svc := listed randomLB (networkController m) svc @ [ip])"
    by blast
  from await_watchdog_answers[of answers 0 i] answers obtain j where "await_watchdog answers 0 = Some j" by auto
  with ns(1) waiting have "machine_ready (internalController env randomLB) answers (svc, ip) m =
      (Ret (), m\<lparr>pending := remove1 (svc, ip) (pending m), networkController := ns\<rparr>)"
    by (simp add: machine_ready_def on_controller_def go_return_def internalController_def)
  from that[OF this ns(2,3) int_add_health[OF ns(1)]] show thesis .
qed

text \<open>A service with one address, a healthy one, resolves to it.\<close>

lemma resolve_only_address:
  assumes "int_wf randomLB NewRandomLoadBalancer rlb_inv n" and "listed randomLB n svc = [ip]" and "is_healthy n ip"
  obtains n' where "int_ResolveServiceEndpoint env randomLB svc n = (Ret (watchdog_url env ip), n')"
proof -
  have "drawn_ip env [ip] p = ip" for p by (simp add: drawn_ip_def)
  moreover have "[0..<max (length [ip]) 5] = [0, 1, 2, 3, 4]" by (simp add: numeral_eq_Suc)
  ultimately show thesis
    using rlb.int_resolve_spec[OF assms(1), of svc env] assms(2,3) that by simp
qed

text \<open>
  C24: the address of a new machine is registered when its watchdog answers, and not before: the
  waiting goroutine then appends it to the addresses of the service, with the internal controller,
  and a watchdog that never answers leaves the goroutine waiting and the service without the address.
\<close>

theorem watchdog_answer_registers:
  assumes "int_wf randomLB NewRandomLoadBalancer rlb_inv (networkController m)" and "(svc, ip) \<in> set (pending m)"
    and "\<forall>v. ip \<notin> set (listed randomLB (networkController m) v)"
    and "Suc (length (listed randomLB (networkController m) svc)) < 2 ^ 63"
  shows "if \<exists>i. answers i
    then \<exists>m'. machine_ready (internalController env randomLB) answers (svc, ip) m = (Ret (), m') \<and>
      listed randomLB (networkController m') = (listed randomLB (networkController m))(svc :=
        listed randomLB (networkController m) svc @ [ip]) \<and>
      pending m' = remove1 (svc, ip) (pending m) \<and> machineInstanceMapv2 m' = machineInstanceMapv2 m
    else machine_ready (internalController env randomLB) answers (svc, ip) m = (Blocked, m)"
proof (cases "\<exists>i. answers i")
  case True
  then obtain i where "answers i" ..
  from internal.ready[where m = m and svc = svc and ip = ip and answers = answers, OF assms(1,2) TrueI assms(3,4) this] True
  show ?thesis by auto
next
  case False
  then have "await_watchdog answers 0 = None" using await_watchdog_Some[of answers 0] by (cases "await_watchdog answers 0") auto
  with False assms(2) show ?thesis by (simp add: machine_ready_def)
qed

theorem watchdog_answer_registers_witness:
  "\<exists>ns m'. machine_ready (internalController sample_net_env randomLB) (\<lambda>i. i = 3) (''f'', ''10.0.0.3'')
      ((sample_machines ns)\<lparr>pending := [(''f'', ''10.0.0.3'')]\<rparr>) = (Ret (), m') \<and>
    listed randomLB (networkController m') ''f'' = [''10.0.0.1'', ''10.0.0.2'', ''10.0.0.3'']"
proof (rule sample_internal)
  fix ns
  assume ns: "int_wf randomLB NewRandomLoadBalancer rlb_inv ns"
    "listed randomLB ns = (\<lambda>_. [])(''f'' := [''10.0.0.1'', ''10.0.0.2''])"
  let ?m = "(sample_machines ns)\<lparr>pending := [(''f'', ''10.0.0.3'')]\<rparr>"
  have nc: "networkController ?m = ns" by (simp add: sample_machines_def)
  have answers: "\<exists>i. (\<lambda>i. i = (3 :: nat)) i" by simp
  from watchdog_answer_registers[of ?m "''f''" "''10.0.0.3''" "\<lambda>i. i = 3" sample_net_env, unfolded nc, OF ns(1)]
  have "\<exists>m'. machine_ready (internalController sample_net_env randomLB) (\<lambda>i. i = 3) (''f'', ''10.0.0.3'') ?m = (Ret (), m') \<and>
      listed randomLB (networkController m') = (listed randomLB ns)(''f'' := listed randomLB ns ''f'' @ [''10.0.0.3''])"
    using answers by (auto simp: ns(2))
  then obtain m' where m': "machine_ready (internalController sample_net_env randomLB) (\<lambda>i. i = 3) (''f'', ''10.0.0.3'') ?m = (Ret (), m')"
    "listed randomLB (networkController m') = (listed randomLB ns)(''f'' := listed randomLB ns ''f'' @ [''10.0.0.3''])" by blast
  show ?thesis by (rule exI[of _ ns], rule exI[of _ m']) (simp add: m' ns(2))
qed

section \<open>Destroying a machine twice\<close>

lemma int_delete_absent:
  assumes "int_wf randomLB NewRandomLoadBalancer rlb_inv n" and "listed randomLB n svc \<noteq> []"
    and "ip \<notin> set (listed randomLB n svc)"
  shows "int_DeleteServiceIP randomLB svc ip n = (Panic ''index out of range'', n)"
proof -
  obtain lb where lb: "instancesMap n svc = Some lb" using assms(2) by (cases "instancesMap n svc") (auto simp: listed_def)
  have ips: "rlb_ips lb = listed randomLB n svc" by (simp add: listed_Some[OF lb] randomLB_def rlb_GetIPs_def)
  have "rlb_DeleteInstance ip lb = Panic ''index out of range''"
    by (rule rlb_DeleteInstance_absent) (use int_wfD(3)[OF assms(1) lb] assms(2,3) ips in simp_all)
  then show ?thesis by (simp add: int_DeleteServiceIP_def lb Let_def randomLB_def)
qed

text \<open>
  Destroying a machine a second time ends the process, with the internal controller: the machine
  service answers with the stopped machine rather than nil, so the store keeps its interface; the
  second call deregisters an address that is gone, and the load balancer indexes out of range.
\<close>

theorem destroying_twice_panics:
  assumes works: "destroy_works env" and kept: "\<not> fst (snd (machine_Stop env mc))"
    and wf: "int_wf randomLB NewRandomLoadBalancer rlb_inv (networkController m)"
    and net: "machineNetworkMapv2 m (mc_UID mc) = Some iface" and long: "15 \<le> length (if_IfName iface)"
    and reg: "if_IP iface \<in> set (listed randomLB (networkController m) (service_of m mc))"
    and others: "2 \<le> length (listed randomLB (networkController m) (service_of m mc))"
  shows "\<exists>e m'. destroyMachine (internalController nenv randomLB) env mc m = (Ret e, m') \<and>
    fst (destroyMachine (internalController nenv randomLB) env mc m') = Panic ''index out of range''"
proof -
  let ?svc = "service_of m mc"
  from internal.destroy_deregisters[where m = m and mc = mc, OF works wf net reg TrueI long, of nenv] obtain e m' where
    first: "destroyMachine (internalController nenv randomLB) env mc m = (Ret e, m')"
    and wf': "int_wf randomLB NewRandomLoadBalancer rlb_inv (networkController m')"
    and pool: "listed randomLB (networkController m') = (listed randomLB (networkController m))(?svc :=
      filter (\<lambda>x. x \<noteq> if_IP iface) (listed randomLB (networkController m) ?svc))" by blast
  have net': "machineNetworkMapv2 m' (mc_UID mc) = Some iface"
    using first net kept by (auto simp: destroyMachine_def stop_machine_def update_object_def go_bind_def
        go_return_def on_controller_def Let_def split: option.splits prod.splits if_splits outcome.splits)
  have svc': "service_of m' mc = ?svc" using destroyMachine_frame[OF first refl] by (simp add: service_of_def)
  have dist: "distinct (listed randomLB (networkController m) ?svc)" by (rule int_wfD(4)[OF wf])
  obtain ip where "ip \<in> set (listed randomLB (networkController m) ?svc)" "ip \<noteq> if_IP iface"
    using others dist by (cases "listed randomLB (networkController m) ?svc" rule: remdups_adj.cases) auto
  then have "listed randomLB (networkController m') ?svc \<noteq> []" by (auto simp: pool filter_empty_conv)
  from int_delete_absent[OF wf' this, of "if_IP iface"]
  have "on_controller (DeleteServiceIP (internalController nenv randomLB) ?svc (if_IP iface)) m' =
      (Panic ''index out of range'', m'\<lparr>networkController := networkController m'\<rparr>)"
    by (simp add: on_controller_def pool)
  then have "fst (destroyMachine (internalController nenv randomLB) env mc m') = Panic ''index out of range''"
    using works net' svc' by (simp add: destroyMachine_def destroy_works_def)
  with first show ?thesis by blast
qed

theorem destroying_twice_panics_witness:
  "\<exists>ns e m'. destroyMachine (internalController sample_net_env randomLB) sample_menv (sample_machine ''uid1'')
      (sample_machines ns) = (Ret e, m') \<and>
    fst (destroyMachine (internalController sample_net_env randomLB) sample_menv (sample_machine ''uid1'') m') =
      Panic ''index out of range''"
proof (rule sample_internal)
  fix ns
  assume ns: "int_wf randomLB NewRandomLoadBalancer rlb_inv ns"
    "listed randomLB ns = (\<lambda>_. [])(''f'' := [''10.0.0.1'', ''10.0.0.2''])"
  have nc: "networkController (sample_machines ns) = ns" by (simp add: sample_machines_def)
  have kept: "\<not> fst (snd (machine_Stop sample_menv (sample_machine ''uid1'')))" by (simp add: sample_menv_def)
  have mc: "machineInstanceMapv2 (sample_machines ns) ''uid1'' = Some (sample_machine ''uid1'')"
    by (simp add: sample_machines_def)
  have net: "machineNetworkMapv2 (sample_machines ns) (mc_UID (sample_machine ''uid1'')) =
      Some (sample_iface ''uid1'' ''10.0.0.1'')"
    by (simp add: sample_machines_def sample_machine_def)
  from destroying_twice_panics[where m = "sample_machines ns" and nenv = sample_net_env, unfolded nc,
      OF sample_destroy_works kept ns(1) net]
  show ?thesis using sample_service_of[OF mc] by (simp add: ns(2) sample_iface_def) blast
qed

section \<open>The health check of the machines\<close>

text \<open>
  C23: a pass of the machine health check retires exactly the running machines that the machine
  service reports as stopped, with the internal controller: the pass returns, the machines reported as
  running stay replicas with their addresses, exactly the addresses of the stopped ones are
  deregistered, and the mutex is free again. A machine whose check fails keeps its address.
\<close>

theorem health_pass_retires_stopped_machines:
  assumes ok: "store_ok (listed randomLB) (int_wf randomLB NewRandomLoadBalancer rlb_inv) (\<lambda>_. True) m"
    and works: "destroy_works env" and free: "\<not> healthChecklock m" and answers: "gets_machines env"
    and ord: "range_order (machineInstanceMapv2 m) keys"
  shows "\<exists>m'. health_pass (internalController nenv randomLB) env keys m = (Ret (), m') \<and> \<not> healthChecklock m' \<and>
    (\<forall>svc. replica_set m' svc = {k \<in> replica_set m svc. still_running env m k}) \<and>
    (\<forall>svc. set (listed randomLB (networkController m') svc) = set (listed randomLB (networkController m) svc) -
      {if_IP i | k i. k \<in> replica_set m svc \<and> found_stopped env m k \<and> machineNetworkMapv2 m k = Some i})"
proof -
  have keys: "k \<in> set keys" if "k \<in> replica_set m svc" for k svc
    using that replica_set_dom[of m svc] range_orderD(2)[OF ord] by blast
  from internal.health_pass_retires[OF ok works free answers range_orderD(1)[OF ord], of nenv] obtain m' where
    r: "health_pass (internalController nenv randomLB) env keys m = (Ret (), m')" "\<not> healthChecklock m'"
      "\<And>svc. replica_set m' svc = {k \<in> replica_set m svc. k \<in> set keys \<longrightarrow> still_running env m k}"
      "\<And>svc. set (listed randomLB (networkController m') svc) = set (listed randomLB (networkController m) svc) -
        {if_IP i | k i. k \<in> set keys \<and> found_stopped env m k \<and> k \<in> replica_set m svc \<and> machineNetworkMapv2 m k = Some i}"
    by blast
  have "replica_set m' svc = {k \<in> replica_set m svc. still_running env m k}" for svc
    unfolding r(3) using keys[of _ svc] by blast
  moreover have "set (listed randomLB (networkController m') svc) = set (listed randomLB (networkController m) svc) -
      {if_IP i | k i. k \<in> replica_set m svc \<and> found_stopped env m k \<and> machineNetworkMapv2 m k = Some i}" for svc
    unfolding r(4) using keys[of _ svc] by blast
  ultimately show ?thesis using r(1,2) by blast
qed

theorem health_pass_retires_stopped_machines_witness:
  "\<exists>ns m'. health_pass (internalController sample_net_env randomLB)
      (sample_menv\<lparr>machine_Get := (\<lambda>mc. (if mc_UID mc = ''uid1'' then mc\<lparr>mc_State := MachineStateFailed\<rparr> else mc, False, None))\<rparr>)
      [''uid1'', ''uid2''] (sample_machines ns) = (Ret (), m') \<and> replica_set m' ''f'' = {''uid2''} \<and>
    set (listed randomLB (networkController m') ''f'') = {''10.0.0.2''}"
proof (rule sample_internal)
  fix ns
  assume ns: "int_wf randomLB NewRandomLoadBalancer rlb_inv ns"
    "listed randomLB ns = (\<lambda>_. [])(''f'' := [''10.0.0.1'', ''10.0.0.2''])"
  define env where "env = sample_menv\<lparr>machine_Get :=
    (\<lambda>mc. (if mc_UID mc = ''uid1'' then mc\<lparr>mc_State := MachineStateFailed\<rparr> else mc, False, None))\<rparr>"
  have ok: "store_ok (listed randomLB) (int_wf randomLB NewRandomLoadBalancer rlb_inv) (\<lambda>_. True) (sample_machines ns)"
    by (rule sample_store_ok) (simp_all add: ns)
  have works: "destroy_works env"
    by (simp add: destroy_works_def machine_service_def service_ok_def keeps_identity_def sample_menv_def is_running_def env_def)
  have answers: "gets_machines env" by (simp add: gets_machines_def env_def)
  have free: "\<not> healthChecklock (sample_machines ns)" by (simp add: sample_machines_def)
  have found: "found_stopped env (sample_machines ns) ''uid1''" "\<not> found_stopped env (sample_machines ns) ''uid2''"
    "\<not> still_running env (sample_machines ns) ''uid1''" "still_running env (sample_machines ns) ''uid2''"
    by (simp_all add: found_stopped_def still_running_def sample_machines_def sample_machine_def is_running_def env_def)
  have state: "networkController (sample_machines ns) = ns"
    "machineNetworkMapv2 (sample_machines ns) ''uid1'' = Some (sample_iface ''uid1'' ''10.0.0.1'')"
    by (simp_all add: sample_machines_def)
  let ?gone = "\<lambda>svc. {if_IP i | k i. k \<in> replica_set (sample_machines ns) svc \<and>
    found_stopped env (sample_machines ns) k \<and> machineNetworkMapv2 (sample_machines ns) k = Some i}"
  from health_pass_retires_stopped_machines[OF ok works free answers sample_order, of sample_net_env] obtain m' where
    run: "health_pass (internalController sample_net_env randomLB) env [''uid1'', ''uid2''] (sample_machines ns) = (Ret (), m')"
    and reps: "\<forall>svc. replica_set m' svc = {k \<in> replica_set (sample_machines ns) svc. still_running env (sample_machines ns) k}"
    and left: "\<forall>svc. set (listed randomLB (networkController m') svc) =
      set (listed randomLB (networkController (sample_machines ns)) svc) - ?gone svc" by (elim exE conjE)
  have only: "k = ''uid1''" if "k \<in> replica_set (sample_machines ns) ''f''" "found_stopped env (sample_machines ns) k" for k
    using that found(2) unfolding sample_replicas by blast
  have "?gone ''f'' = {if_IP i | i. machineNetworkMapv2 (sample_machines ns) ''uid1'' = Some i}"
  proof (intro subset_antisym subsetI)
    fix x assume "x \<in> ?gone ''f''"
    then obtain k i where "x = if_IP i" "k \<in> replica_set (sample_machines ns) ''f''" "found_stopped env (sample_machines ns) k"
      "machineNetworkMapv2 (sample_machines ns) k = Some i" by (elim CollectE exE conjE)
    with only[of k] show "x \<in> {if_IP i | i. machineNetworkMapv2 (sample_machines ns) ''uid1'' = Some i}" by simp
  next
    fix x assume "x \<in> {if_IP i | i. machineNetworkMapv2 (sample_machines ns) ''uid1'' = Some i}"
    moreover have "''uid1'' \<in> replica_set (sample_machines ns) ''f''" by simp
    ultimately show "x \<in> ?gone ''f''" using found(1) by fast
  qed
  also have "\<dots> = {''10.0.0.1''}" unfolding state(2) by (simp add: sample_iface_def)
  finally have gone: "?gone ''f'' = {''10.0.0.1''}" .
  have "set (listed randomLB (networkController m') ''f'') = {''10.0.0.2''}"
    unfolding left[rule_format] gone by (simp add: state(1) ns(2))
  moreover have "replica_set m' ''f'' = {''uid2''}" unfolding reps[rule_format] sample_replicas using found(3,4) by blast
  ultimately show ?thesis using run unfolding env_def[symmetric] by (intro exI[of _ ns] exI[of _ m']) simp
qed

end
