(* ===== verification/Handlers.thy ===== *)
theory Handlers
  imports Routing
begin

text \<open>
  The HTTP handlers of \<open>pkg/provider/handlers\<close>, over the function store and the machine store (whose
  state holds that of the network controller). A request arrives decoded: no body, a body that does
  not parse, or the value; a response is the list of calls on the response writer.
\<close>

section \<open>Requests and responses\<close>

record 'n Provider =
  fStore :: FunctionStore
  mStore :: "'n MachineStore"

record VersionInfo =
  vi_Release :: string
  vi_SHA :: string

record ProviderInfo =
  pi_Orchestration :: string
  pi_Name :: string
  pi_Version :: VersionInfo

datatype json = JStatuses "FunctionStatus list" | JStatus FunctionStatus | JStrings "string list"
  | JInfo ProviderInfo

datatype response_call = HttpError string nat | SetHeader string string | WriteHeader nat | WriteJson json

type_synonym response = "response_call list"

type_synonym 'r request_body = "(go_error + 'r) option"

definition StatusOK :: nat where "StatusOK = 200"
definition StatusBadRequest :: nat where "StatusBadRequest = 400"
definition StatusNotFound :: nat where "StatusNotFound = 404"
definition StatusInternalServerError :: nat where "StatusInternalServerError = 500"

lemmas status_defs = StatusOK_def StatusBadRequest_def StatusNotFound_def StatusInternalServerError_def

text \<open>The namespace service of containerd.\<close>

record namespace_service =
  ns_List :: "go_error + string list"
  ns_Labels :: "string \<Rightarrow> go_error + (string \<rightharpoonup> string)"

text \<open>A call on one of the two stores.\<close>

definition on_fStore :: "(FunctionStore, 'a) go \<Rightarrow> ('n Provider, 'a) go" where
  "on_fStore call p = (case call (fStore p) of (r, f) \<Rightarrow> (r, p\<lparr>fStore := f\<rparr>))"

definition on_mStore :: "('n MachineStore, 'a) go \<Rightarrow> ('n Provider, 'a) go" where
  "on_mStore call p = (case call (mStore p) of (r, m) \<Rightarrow> (r, p\<lparr>mStore := m\<rparr>))"

section \<open>Namespaces and secrets\<close>

definition getRequestNamespace :: "string \<Rightarrow> string" where
  "getRequestNamespace namespace = (if 0 < length namespace then namespace else DefaultFunctionNamespace)"

definition readNamespaceFromQuery :: "(string \<rightharpoonup> string) \<Rightarrow> string" where
  "readNamespaceFromQuery query = go_lookup query ''namespace''"

definition getNamespaceSecretMountPath :: "string \<Rightarrow> string \<Rightarrow> string" where
  "getNamespaceSecretMountPath userSecretPath namespace = path_Join [userSecretPath, namespace]"

definition validNamespace :: "namespace_service \<Rightarrow> string \<Rightarrow> go_error + bool" where
  "validNamespace ns namespace =
     (if namespace = DefaultFunctionNamespace then Inr True
      else case ns_Labels ns namespace of
             Inl err \<Rightarrow> Inl err
           | Inr labels \<Rightarrow>
               (case labels NamespaceLabel of
                  Some value \<Rightarrow> if value = ''true'' then Inr True else Inr False
                | None \<Rightarrow> Inr False))"

text \<open>The answer to a request whose namespace is not valid, if it is not.\<close>

definition reject_namespace :: "namespace_service \<Rightarrow> string \<Rightarrow> response option" where
  "reject_namespace ns namespace =
     (case validNamespace ns namespace of
        Inl err \<Rightarrow> Some [HttpError (Error err) StatusBadRequest]
      | Inr valid \<Rightarrow> if valid then None else Some [HttpError ''namespace not valid'' StatusBadRequest])"

fun validateSecrets :: "(string \<Rightarrow> go_error option) \<Rightarrow> string \<Rightarrow> string list \<Rightarrow> go_error option" where
  "validateSecrets stat secretMountPath [] = None"
| "validateSecrets stat secretMountPath (secret # secrets) =
     (case stat (path_Join [secretMountPath, secret]) of
        Some err \<Rightarrow> Some (Errorf (''unable to find secret: '' @ secret))
      | None \<Rightarrow> validateSecrets stat secretMountPath secrets)"

definition findNamespace :: "string \<Rightarrow> string list \<Rightarrow> bool" where
  "findNamespace target items \<longleftrightarrow> (\<exists>n \<in> set items. n = target)"

fun list_namespaces :: "namespace_service \<Rightarrow> string list \<Rightarrow> string list \<Rightarrow> string list" where
  "list_namespaces ns [] acc = acc"
| "list_namespaces ns (namespace # rest) acc =
     (case ns_Labels ns namespace of
        Inl err \<Rightarrow> list_namespaces ns rest acc
      | Inr labels \<Rightarrow>
          (let acc1 = (if labels NamespaceLabel \<noteq> None then acc @ [namespace] else acc);
               acc2 = (if findNamespace DefaultFunctionNamespace acc1 then acc1 else acc1 @ [DefaultFunctionNamespace])
           in list_namespaces ns rest acc2))"

definition ListNamespaces :: "namespace_service \<Rightarrow> string list" where
  "ListNamespaces ns =
     (case ns_List ns of
        Inl err \<Rightarrow> [DefaultFunctionNamespace]
      | Inr namespaces \<Rightarrow> list_namespaces ns namespaces [])"

definition json_ok :: "json \<Rightarrow> response" where
  "json_ok body = [SetHeader ''Content-Type'' ''application/json'', WriteHeader StatusOK, WriteJson body]"

definition MakeNamespacesLister :: "namespace_service \<Rightarrow> ('n Provider, response) go" where
  "MakeNamespacesLister ns = go_return (json_ok (JStrings (ListNamespaces ns)))"

definition OrchestrationIdentifier :: string where "OrchestrationIdentifier = ''containerd''"
definition ProviderName :: string where "ProviderName = ''ukfaasd''"

text \<open>\<open>json.Marshal\<close> does not fail on a record of strings.\<close>

definition MakeInfoHandler :: "string \<Rightarrow> string \<Rightarrow> ('n Provider, response) go" where
  "MakeInfoHandler version sha = go_return (json_ok (JInfo
     \<lparr>pi_Orchestration = OrchestrationIdentifier, pi_Name = ProviderName,
      pi_Version = \<lparr>vi_Release = version, vi_SHA = sha\<rparr>\<rparr>))"

section \<open>Reading\<close>

definition with_replicas ::
  "'n NetworkController \<Rightarrow> (string \<Rightarrow> string list) \<Rightarrow> 'n MachineStore \<Rightarrow> FunctionStatus \<Rightarrow> FunctionStatus" where
  "with_replicas nc orders m function_st =
     function_st\<lparr>st_Replicas := GetReplicas (orders (st_Name function_st)) (st_Name function_st) m,
       st_AvailableReplicas := GetAvailableReplicas nc (st_Name function_st) m\<rparr>"

text \<open>\<open>forder\<close> and \<open>orders\<close> are the orders in which the stores are ranged over.\<close>

definition MakeReadHandler ::
  "'n NetworkController \<Rightarrow> namespace_service \<Rightarrow> string list \<Rightarrow> (string \<Rightarrow> string list) \<Rightarrow>
   (string \<rightharpoonup> string) \<Rightarrow> ('n Provider, response) go" where
  "MakeReadHandler nc ns forder orders query p =
     (case reject_namespace ns (getRequestNamespace (readNamespaceFromQuery query)) of
        Some res \<Rightarrow> (Ret res, p)
      | None \<Rightarrow>
          (case ListFunctions forder (fStore p) of
             Inl err \<Rightarrow> (Ret [HttpError (Error err) StatusBadRequest], p)
           | Inr fns \<Rightarrow> (Ret (json_ok (JStatuses (map (with_replicas nc orders (mStore p)) fns))), p)))"

definition MakeFunctionStatusHandler ::
  "'n NetworkController \<Rightarrow> namespace_service \<Rightarrow> (string \<Rightarrow> string list) \<Rightarrow> string \<Rightarrow>
   (string \<rightharpoonup> string) \<Rightarrow> ('n Provider, response) go" where
  "MakeFunctionStatusHandler nc ns orders service query p =
     (case reject_namespace ns (getRequestNamespace (readNamespaceFromQuery query)) of
        Some res \<Rightarrow> (Ret res, p)
      | None \<Rightarrow>
          (case GetFunctionStatus service (fStore p) of
             Inr found \<Rightarrow> (Ret (json_ok (JStatus (with_replicas nc orders (mStore p) found))), p)
           | Inl err \<Rightarrow> (Ret [WriteHeader StatusNotFound], p)))"

section \<open>Writing\<close>

text \<open>
  The common start of the handlers with a body: a request without a body, or with one that does not
  parse, is answered with 400.
\<close>

definition with_body ::
  "'r request_body \<Rightarrow> ('r \<Rightarrow> ('n Provider, response) go) \<Rightarrow> ('n Provider, response) go" where
  "with_body body handle =
     (case body of
        None \<Rightarrow> go_return [HttpError ''expected a body'' StatusBadRequest]
      | Some (Inl err) \<Rightarrow> go_return [HttpError (Error err) StatusBadRequest]
      | Some (Inr req) \<Rightarrow> handle req)"

definition with_namespace ::
  "namespace_service \<Rightarrow> string \<Rightarrow> ('n Provider, response) go \<Rightarrow> ('n Provider, response) go" where
  "with_namespace ns namespace handle =
     (case reject_namespace ns namespace of Some res \<Rightarrow> go_return res | None \<Rightarrow> handle)"

definition MakeDeployHandler ::
  "namespace_service \<Rightarrow> (string \<Rightarrow> go_error option) \<Rightarrow> fstore_env \<Rightarrow> machine_env \<Rightarrow> string \<Rightarrow>
   FunctionDeployment request_body \<Rightarrow> ('n Provider, response) go" where
  "MakeDeployHandler ns stat fenv menv secretMountPath body =
     with_body body (\<lambda>req.
       let namespace = getRequestNamespace (fd_Namespace req) in
       with_namespace ns namespace
         (case validateSecrets stat (getNamespaceSecretMountPath secretMountPath namespace) (fd_Secrets req) of
            Some err \<Rightarrow> go_return [HttpError (Error err) StatusBadRequest]
          | None \<Rightarrow>
              go_bind (on_fStore (AddFunction fenv req)) (\<lambda>added.
                case added of
                  Inl err \<Rightarrow> go_return [HttpError (Error err) StatusBadRequest]
                | Inr function_md \<Rightarrow>
                    go_bind (on_mStore (NewMachine menv function_md)) (\<lambda>err.
                      case err of
                        Some e \<Rightarrow> go_return [HttpError (Error e) StatusBadRequest]
                      | None \<Rightarrow> go_return [WriteHeader StatusOK]))))"

record DeleteFunctionRequest =
  df_FunctionName :: string
  df_Namespace :: string

text \<open>
  What the handlers know of a scaling call: the answers of the libraries to each goroutine, the orders
  of their ranges, the schedule of the goroutines, and the order in which the call itself counts.
\<close>

record scaling =
  sc_envs :: "nat \<Rightarrow> machine_env"
  sc_orders :: "nat \<Rightarrow> range_of"
  sc_schedule :: "nat list"
  sc_order :: range_of

definition scale_to ::
  "'n NetworkController \<Rightarrow> scaling \<Rightarrow> string \<Rightarrow> 64 word \<Rightarrow> ('n MachineStore, go_error option) go" where
  "scale_to nc sc service replicas m =
     ScaleMachinesTo nc (sc_envs sc) (sc_orders sc) (sc_schedule sc) (sc_order sc (machineInstanceMapv2 m)) service replicas m"

definition stop_all :: "'n NetworkController \<Rightarrow> scaling \<Rightarrow> string \<Rightarrow> ('n MachineStore, go_error option) go" where
  "stop_all nc sc service m =
     StopAllMachines nc (sc_envs sc) (sc_orders sc) (sc_schedule sc) (sc_order sc (machineInstanceMapv2 m)) service m"

text \<open>
  The delete handler does not return after the error of stopping the machines: it goes on to delete
  the function.
\<close>

definition MakeDeleteHandler ::
  "'n NetworkController \<Rightarrow> namespace_service \<Rightarrow> scaling \<Rightarrow> DeleteFunctionRequest request_body \<Rightarrow>
   ('n Provider, response) go" where
  "MakeDeleteHandler nc ns sc body =
     with_body body (\<lambda>req.
       with_namespace ns (if df_Namespace req = '''' then DefaultFunctionNamespace else df_Namespace req)
         (\<lambda>p. let name = df_FunctionName req in
           if FunctionExists name (fStore p)
           then go_bind (on_mStore (stop_all nc sc name)) (\<lambda>err.
                  go_bind (on_fStore (DeleteFunction name)) (\<lambda>err'.
                    go_return
                      ((case err of Some e \<Rightarrow> [HttpError (''Function '' @ name @ '' not deleted: '' @ Error e)
                          StatusInternalServerError] | None \<Rightarrow> []) @
                       (case err' of Some e \<Rightarrow> [HttpError (''Function '' @ name @ '' not deleted: '' @ Error e)
                          StatusInternalServerError] | None \<Rightarrow> [])))) p
           else (Ret [HttpError (''service '' @ name @ '' not found'') StatusNotFound], p)))"

record ScaleServiceRequest =
  ss_ServiceName :: string
  ss_Namespace :: string
  ss_Replicas :: "64 word"

text \<open>The error of \<open>NewMachine\<close> is dropped in the scale handler.\<close>

definition MakeReplicaUpdateHandler ::
  "'n NetworkController \<Rightarrow> namespace_service \<Rightarrow> machine_env \<Rightarrow> scaling \<Rightarrow> ScaleServiceRequest request_body \<Rightarrow>
   ('n Provider, response) go" where
  "MakeReplicaUpdateHandler nc ns menv sc body =
     with_body body (\<lambda>req.
       with_namespace ns (if ss_Namespace req = '''' then DefaultFunctionNamespace else ss_Namespace req)
         (\<lambda>p. let name = ss_ServiceName req in
           case GetFunction name (fStore p) of
             Inl err \<Rightarrow> (Ret [HttpError (''service '' @ name @ '' not found : '' @ Error err) StatusNotFound], p)
           | Inr function_md \<Rightarrow>
               go_bind
                 (\<lambda>p. if GetReplicas (sc_order sc (machineInstanceMapv2 (mStore p))) name (mStore p) = 0
                      then on_mStore (NewMachine menv function_md) p
                      else (Ret None, p))
                 (\<lambda>_. go_bind (on_mStore (scale_to nc sc name (ss_Replicas req))) (\<lambda>err.
                    go_return (case err of
                      Some e \<Rightarrow> [HttpError (''Function '' @ name @ '' not scaled: '' @ Error e) StatusInternalServerError]
                    | None \<Rightarrow> []))) p))"

text \<open>
  The two goroutines of the update handler, in the order in which they run: both write the one
  variable \<open>err\<close>, so the error that is tested is that of the one that ran last. The machines stopped
  are those of \<open>function.Name\<close>, the name of the empty status.
\<close>

definition replace_machines ::
  "bool \<Rightarrow> 'n NetworkController \<Rightarrow> machine_env \<Rightarrow> scaling \<Rightarrow> string \<Rightarrow> FunctionMetaData \<Rightarrow>
   ('n Provider, go_error option) go" where
  "replace_machines stop_first nc menv sc name updatedFunction =
     (if stop_first
      then go_bind (on_mStore (stop_all nc sc name)) (\<lambda>_. on_mStore (NewMachine menv updatedFunction))
      else go_bind (on_mStore (NewMachine menv updatedFunction)) (\<lambda>_. on_mStore (stop_all nc sc name)))"

text \<open>
  The update handler, with the test the source has: it updates when \<open>GetFunctionStatus\<close> failed, with
  the empty status of that failure.
\<close>

definition MakeUpdateHandler ::
  "bool \<Rightarrow> 'n NetworkController \<Rightarrow> namespace_service \<Rightarrow> fstore_env \<Rightarrow> machine_env \<Rightarrow> scaling \<Rightarrow> scaling \<Rightarrow>
   FunctionDeployment request_body \<Rightarrow> ('n Provider, response) go" where
  "MakeUpdateHandler stop_first nc ns fenv menv sc1 sc2 body =
     with_body body (\<lambda>req.
       with_namespace ns (getRequestNamespace (fd_Namespace req))
         (\<lambda>p. let name = fd_Service req in
           case GetFunctionStatus name (fStore p) of
             Inr function_st \<Rightarrow> (Ret [HttpError (''service '' @ name @ '' not found'') StatusNotFound], p)
           | Inl statusErr \<Rightarrow>
               go_bind (on_fStore (UpdateFunction fenv req)) (\<lambda>updated.
                 case updated of
                   Inl err \<Rightarrow> go_return [HttpError (Error err) StatusBadRequest]
                 | Inr (updatedFunction, updateImage) \<Rightarrow>
                     go_bind
                       (if updateImage then replace_machines stop_first nc menv sc1 '''' updatedFunction
                        else go_return None)
                       (\<lambda>err. case err of
                          Some e \<Rightarrow> go_return [HttpError (Error e) StatusBadRequest]
                        | None \<Rightarrow>
                            go_bind (on_mStore (scale_to nc sc2 name 0)) (\<lambda>err.
                              go_return (case err of
                                Some e \<Rightarrow> [HttpError (Error e) StatusBadRequest]
                              | None \<Rightarrow> [])))) p))"

section \<open>Resolving an invocation\<close>

definition actual_function_name :: "string \<Rightarrow> string" where
  "actual_function_name functionName =
     (if contains_char (CHR ''.'') functionName
      then trim_suffix functionName (''.'' @ DefaultFunctionNamespace) else functionName)"

definition Resolve ::
  "'n NetworkController \<Rightarrow> machine_env \<Rightarrow> range_of \<Rightarrow> string \<Rightarrow> ('n Provider, go_error + URL) go" where
  "Resolve nc menv order_of functionName p =
     (let name = actual_function_name functionName in
      case GetFunction name (fStore p) of
        Inl err \<Rightarrow> (Ret (Inl (Errorf (name @ '' not found''))), p)
      | Inr function_md \<Rightarrow>
          go_bind
            (\<lambda>p. if GetReplicas (order_of (machineInstanceMapv2 (mStore p))) name (mStore p) = 0
                 then on_mStore (NewMachine menv function_md) p
                 else (Ret None, p))
            (\<lambda>scaleErr. case scaleErr of
               Some e \<Rightarrow> go_return (Inl e)
             | None \<Rightarrow> on_mStore (on_controller (ResolveServiceEndpoint nc name))) p)"

section \<open>What the common parts do\<close>

lemma on_fStore_Ret: "call (fStore p) = (r, f) \<Longrightarrow> on_fStore call p = (r, p\<lparr>fStore := f\<rparr>)"
  by (simp add: on_fStore_def)

lemma on_mStore_Ret: "call (mStore p) = (r, m) \<Longrightarrow> on_mStore call p = (r, p\<lparr>mStore := m\<rparr>)"
  by (simp add: on_mStore_def)

lemma with_body_Some [simp]: "with_body (Some (Inr req)) handle = handle req"
  by (simp add: with_body_def)

lemma with_namespace_None: "reject_namespace ns namespace = None \<Longrightarrow> with_namespace ns namespace handle = handle"
  by (simp add: with_namespace_def)

lemma default_namespace_valid [simp]: "reject_namespace ns DefaultFunctionNamespace = None"
  by (simp add: reject_namespace_def validNamespace_def)

lemma reject_namespace_iff:
  "reject_namespace ns namespace = None \<longleftrightarrow> namespace = DefaultFunctionNamespace \<or>
     (\<exists>labels. ns_Labels ns namespace = Inr labels \<and> labels NamespaceLabel = Some ''true'')"
  by (auto simp: reject_namespace_def validNamespace_def split: sum.split option.split)

lemma GetFunctionStatus_known:
  "functionMetaData f name = Some md \<Longrightarrow> \<exists>st. GetFunctionStatus name f = Inr st"
  by (simp add: GetFunctionStatus_def GetFunction_def)

lemma GetFunctionStatus_unknown:
  "functionMetaData f name = None \<Longrightarrow> \<exists>e. GetFunctionStatus name f = Inl e"
  by (simp add: GetFunctionStatus_def GetFunction_def)

section \<open>Properties of the handlers\<close>

text \<open>
  C25: the update handler never updates: whatever the request and the libraries answer, the call
  returns and leaves both stores as they were. With a valid namespace a deployed function is answered
  with 404 and an unknown one with 400.
\<close>

theorem update_handler_never_updates:
  shows "\<exists>res. MakeUpdateHandler stop_first nc ns fenv menv sc1 sc2 body p = (Ret res, p) \<and>
    (\<forall>req. body = Some (Inr req) \<and> reject_namespace ns (getRequestNamespace (fd_Namespace req)) = None \<longrightarrow>
       res = (if functionMetaData (fStore p) (fd_Service req) = None
              then [HttpError (''function '' @ fd_Service req @ '' not found'') StatusBadRequest]
              else [HttpError (''service '' @ fd_Service req @ '' not found'') StatusNotFound]))"
proof (cases "\<exists>req. body = Some (Inr req) \<and> reject_namespace ns (getRequestNamespace (fd_Namespace req)) = None")
  case True
  then obtain req where req: "body = Some (Inr req)" "reject_namespace ns (getRequestNamespace (fd_Namespace req)) = None"
    by blast
  show ?thesis
  proof (cases "functionMetaData (fStore p) (fd_Service req)")
    case None
    from GetFunctionStatus_unknown[OF None] obtain e where "GetFunctionStatus (fd_Service req) (fStore p) = Inl e" ..
    with None req show ?thesis
      by (simp add: MakeUpdateHandler_def with_namespace_None on_fStore_Ret[OF UpdateFunction_unknown] go_return_def)
  next
    case (Some md)
    from GetFunctionStatus_known[OF this] obtain st where "GetFunctionStatus (fd_Service req) (fStore p) = Inr st" ..
    with Some req show ?thesis by (simp add: MakeUpdateHandler_def with_namespace_None)
  qed
next
  case False
  then show ?thesis
    by (auto simp: MakeUpdateHandler_def with_body_def with_namespace_def go_return_def
        split: option.splits sum.splits)
qed

definition sample_namespaces :: namespace_service where
  "sample_namespaces = \<lparr>ns_List = Inr [''prod'', ''dev''], ns_Labels = (\<lambda>n.
     if n = ''prod'' then Inr [''openfaas'' \<mapsto> ''true''] else Inr [''openfaas'' \<mapsto> ''no''])\<rparr>"

definition sample_provider :: "'n \<Rightarrow> 'n Provider" where
  "sample_provider n = \<lparr>fStore = sample_full ''f'', mStore = sample_machines n\<rparr>"

definition sample_scaling :: scaling where
  "sample_scaling = \<lparr>sc_envs = (\<lambda>_. sample_menv), sc_orders = (\<lambda>_ mp. sorted_list_of_set (dom mp)),
     sc_schedule = [0, 0, 1, 1, 1, 0, 1, 0], sc_order = (\<lambda>mp. sorted_list_of_set (dom mp))\<rparr>"

theorem update_handler_never_updates_witness:
  "MakeUpdateHandler True sample_nc sample_namespaces (sample_env (Inr (sample_pack ''app:v2'')) ''sha256:cd'') sample_menv
      sample_scaling sample_scaling (Some (Inr (sample_req ''f'' ''app:v2''))) (sample_provider ()) =
    (Ret [HttpError ''service f not found'' StatusNotFound], sample_provider ())"
proof -
  have "functionMetaData (fStore (sample_provider ())) (fd_Service (sample_req ''f'' ''app:v2'')) \<noteq> None"
    by (simp add: sample_provider_def sample_full_def sample_req_def)
  moreover have "reject_namespace sample_namespaces (getRequestNamespace (fd_Namespace (sample_req ''f'' ''app:v2''))) = None"
    by (simp add: sample_req_def getRequestNamespace_def reject_namespace_iff DefaultFunctionNamespace_def)
  ultimately show ?thesis
    using update_handler_never_updates[of True sample_nc sample_namespaces
        "sample_env (Inr (sample_pack ''app:v2'')) ''sha256:cd''" sample_menv sample_scaling sample_scaling
        "Some (Inr (sample_req ''f'' ''app:v2''))" "sample_provider ()"]
    by (auto simp: sample_req_def)
qed

text \<open>
  C26: a deployment whose machine cannot be created is answered with 400, but the function stays: the
  same deployment sent again is refused because the service already exists, and creates nothing.
\<close>

theorem failed_deployment_blocks_retry:
  assumes valid: "reject_namespace ns (getRequestNamespace (fd_Namespace req)) = None"
    and secrets: "validateSecrets stat (getNamespaceSecretMountPath mount (getRequestNamespace (fd_Namespace req)))
      (fd_Secrets req) = None"
    and added: "AddFunction fenv req (fStore p) = (Ret (Inr md), f')"
    and failed: "NewMachine menv md (mStore p) = (Ret (Some e), m')"
  shows "\<exists>p'. MakeDeployHandler ns stat fenv menv mount (Some (Inr req)) p =
      (Ret [HttpError (Error e) StatusBadRequest], p') \<and>
    functionMetaData (fStore p') (fd_Service req) = Some md \<and>
    MakeDeployHandler ns stat fenv' menv' mount (Some (Inr req)) p' =
      (Ret [HttpError (''service '' @ fd_Service req @ '' already exists'') StatusBadRequest], p')"
proof -
  let ?p' = "p\<lparr>fStore := f', mStore := m'\<rparr>"
  have md: "functionMetaData f' (fd_Service req) = Some md" using AddFunction_done(2)[OF added] by simp
  have first: "MakeDeployHandler ns stat fenv menv mount (Some (Inr req)) p =
      (Ret [HttpError (Error e) StatusBadRequest], ?p')"
    using secrets on_fStore_Ret[of "AddFunction fenv req" p, OF added]
      on_mStore_Ret[of "NewMachine menv md" "p\<lparr>fStore := f'\<rparr>" "Ret (Some e)" m'] failed
    by (simp add: MakeDeployHandler_def with_namespace_None[OF valid] Let_def go_return_def)
  have "AddFunction fenv' req f' = (Ret (Inl (Errorf (''service '' @ fd_Service req @ '' already exists''))), f')"
    using md by (simp add: AddFunction_def FunctionExists_def)
  then have "on_fStore (AddFunction fenv' req) ?p' =
      (Ret (Inl (Errorf (''service '' @ fd_Service req @ '' already exists''))), ?p')"
    by (simp add: on_fStore_def)
  then have "MakeDeployHandler ns stat fenv' menv' mount (Some (Inr req)) ?p' =
      (Ret [HttpError (''service '' @ fd_Service req @ '' already exists'') StatusBadRequest], ?p')"
    using secrets by (simp add: MakeDeployHandler_def with_namespace_None[OF valid] Let_def go_return_def)
  with first md show ?thesis by (intro exI[of _ ?p']) simp
qed

lemma NewMachine_bridge_down:
  assumes "network_Get env networkName = Inl err" and "NewNetworkService env = None" and "\<not> ms_lock m"
    and "pack_target (md_Package md) = Some t" and "reaches_lock env (function_request md t)"
  shows "\<exists>m'. NewMachine env md m = (Ret (Some err), m')"
proof -
  from assms(5) obtain v where v: "setup_volume env (mr_StoragePath (function_request md t)) (state_dir env) = Inr v"
    and mk: "os_MkdirAll env (state_dir env) = None" by (auto simp: reaches_lock_def)
  have net: "setup_network env (uuid_NewUUID env) = Ret (Inl err)" using assms(1,2) by (simp add: setup_network_def)
  show ?thesis
    using assms(3,4) v mk net unfolding NewMachine_def createMachine_def Let_def state_dir_def[symmetric]
    by (cases v) (simp add: create_body_def create_cleanup_def Let_def)
qed

theorem failed_deployment_blocks_retry_witness:
  "\<exists>p'. MakeDeployHandler sample_namespaces (\<lambda>_. None) (sample_env (Inr (sample_pack ''app:v1'')) ''sha256:ab'')
      (sample_menv\<lparr>network_Get := (\<lambda>_. Inl (LibError ''no bridge''))\<rparr>) ''/secrets''
      (Some (Inr (sample_req ''f'' ''app:v1''))) \<lparr>fStore = sample_store, mStore = NewMachineStore ()\<rparr> =
      (Ret [HttpError ''no bridge'' StatusBadRequest], p') \<and>
    fst (MakeDeployHandler sample_namespaces (\<lambda>_. None) (sample_env (Inr (sample_pack ''app:v1'')) ''sha256:ab'')
      sample_menv ''/secrets'' (Some (Inr (sample_req ''f'' ''app:v1''))) p') =
      Ret [HttpError ''service f already exists'' StatusBadRequest]"
proof -
  let ?env = "sample_menv\<lparr>network_Get := (\<lambda>_. Inl (LibError ''no bridge''))\<rparr>"
  let ?req = "sample_req ''f'' ''app:v1''"
  let ?p = "\<lparr>fStore = sample_store, mStore = NewMachineStore ()\<rparr>"
  have valid: "reject_namespace sample_namespaces (getRequestNamespace (fd_Namespace ?req)) = None"
    by (simp add: sample_req_def getRequestNamespace_def reject_namespace_iff DefaultFunctionNamespace_def)
  have secrets: "validateSecrets (\<lambda>_. None) x (fd_Secrets ?req) = None" for x by (simp add: sample_req_def)
  have added: "AddFunction (sample_env (Inr (sample_pack ''app:v1'')) ''sha256:ab'') ?req (fStore ?p) =
      (Ret (Inr (sample_md ''f'')), sample_full ''f'')" by (simp add: sample_add)
  have "\<exists>m'. NewMachine ?env (sample_md ''f'') (NewMachineStore ()) = (Ret (Some (LibError ''no bridge'')), m')"
    by (rule NewMachine_bridge_down)
      (simp_all add: sample_menv_def NewMachineStore_def sample_md_def sample_pack_def reaches_lock_def setup_volume_def)
  then obtain m' where "NewMachine ?env (sample_md ''f'') (mStore ?p) = (Ret (Some (LibError ''no bridge'')), m')" by auto
  from failed_deployment_blocks_retry[OF valid secrets added this,
      where fenv' = "sample_env (Inr (sample_pack ''app:v1'')) ''sha256:ab''" and menv' = sample_menv and mount = "''/secrets''"]
  obtain p' where p': "MakeDeployHandler sample_namespaces (\<lambda>_. None) (sample_env (Inr (sample_pack ''app:v1'')) ''sha256:ab'')
      ?env ''/secrets'' (Some (Inr ?req)) ?p = (Ret [HttpError (Error (LibError ''no bridge'')) StatusBadRequest], p')"
    "MakeDeployHandler sample_namespaces (\<lambda>_. None) (sample_env (Inr (sample_pack ''app:v1'')) ''sha256:ab'')
      sample_menv ''/secrets'' (Some (Inr ?req)) p' =
      (Ret [HttpError (''service '' @ fd_Service ?req @ '' already exists'') StatusBadRequest], p')" by blast
  have "fd_Service ?req = ''f''" by (simp add: sample_req_def)
  with p' show ?thesis by (intro exI[of _ p']) simp
qed

text \<open>
  C27: deleting a deployed function, with the internal controller and every destroy of its machines
  working, forgets it, stops all its replicas and leaves of the addresses of its service exactly those
  of no replica, along every schedule of the stopping goroutines in which none of them runs between
  another one's choice of a machine and its mark, a call of the controller being one step (when two of them choose the same machine one replica
  is left running, \<open>racing_goroutines_stop_one_machine\<close>). Other functions keep metadata, replicas and
  addresses. The namespace of the request is checked and then not used: any valid one will do.
\<close>

theorem delete_handler_removes_function:
  assumes valid: "reject_namespace ns (if df_Namespace req = '''' then DefaultFunctionNamespace else df_Namespace req) = None"
    and known: "functionMetaData (fStore p) (df_FunctionName req) = Some md"
    and ok: "store_ok (listed randomLB) (int_wf randomLB NewRandomLoadBalancer rlb_inv) (\<lambda>_. True) (mStore p)"
    and free: "\<not> healthChecklock (mStore p)" and small: "card (replica_set (mStore p) (df_FunctionName req)) < 2 ^ 64"
    and order: "valid_order (sc_order sc)" and works: "\<forall>i. destroy_works (sc_envs sc i) \<and> valid_order (sc_orders sc i)"
    and kept: "choices_kept [] (sc_schedule sc)"
  shows "\<exists>p'. MakeDeleteHandler (internalController env randomLB) ns sc (Some (Inr req)) p = (Ret [], p') \<and>
    functionMetaData (fStore p') = (functionMetaData (fStore p))(df_FunctionName req := None) \<and>
    replica_set (mStore p') (df_FunctionName req) = {} \<and>
    set (listed randomLB (networkController (mStore p')) (df_FunctionName req)) =
      set (listed randomLB (networkController (mStore p)) (df_FunctionName req)) -
      addresses (mStore p) (replica_set (mStore p) (df_FunctionName req)) \<and>
    (\<forall>svc. svc \<noteq> df_FunctionName req \<longrightarrow> replica_set (mStore p') svc = replica_set (mStore p) svc \<and>
       listed randomLB (networkController (mStore p')) svc = listed randomLB (networkController (mStore p)) svc)"
proof -
  let ?name = "df_FunctionName req" and ?m = "mStore p"
  have fin: "finite (dom (machineInstanceMapv2 ?m))" using ok by (simp add: store_ok_def)
  have ord: "range_order (machineInstanceMapv2 ?m) (sc_order sc (machineInstanceMapv2 ?m))"
    using order fin by (simp add: valid_order_def)
  from internal.scale_down[OF ok free ord _ small works kept, of 0 env] obtain m' where
    m': "ScaleMachinesTo (internalController env randomLB) (sc_envs sc) (sc_orders sc) (sc_schedule sc)
        (sc_order sc (machineInstanceMapv2 ?m)) ?name 0 ?m = (Ret None, m')"
    and card: "card (replica_set m' ?name) = 0" and ok': "store_ok (listed randomLB)
        (int_wf randomLB NewRandomLoadBalancer rlb_inv) (\<lambda>_. True) m'"
    and gone: "set (listed randomLB (networkController m') ?name) = set (listed randomLB (networkController ?m) ?name) -
       addresses ?m (replica_set ?m ?name - replica_set m' ?name)"
    and other: "\<forall>svc. svc \<noteq> ?name \<longrightarrow> replica_set m' svc = replica_set ?m svc \<and>
       listed randomLB (networkController m') svc = listed randomLB (networkController ?m) svc"
    by auto
  have none: "replica_set m' ?name = {}"
    using card finite_replica_set[of m' ?name] ok' by (simp add: store_ok_def)
  have stop: "stop_all (internalController env randomLB) sc ?name ?m = (Ret None, m')"
    by (simp add: stop_all_def StopAllMachines_def m' go_return_def)
  have "FunctionExists ?name (fStore p)" using known by (simp add: FunctionExists_def)
  then have "MakeDeleteHandler (internalController env randomLB) ns sc (Some (Inr req)) p =
      (Ret [], p\<lparr>mStore := m', fStore := (fStore p)\<lparr>functionMetaData := (functionMetaData (fStore p))(?name := None)\<rparr>\<rparr>)"
    by (simp add: MakeDeleteHandler_def with_namespace_None[OF valid] Let_def go_return_def DeleteFunction_def
        on_mStore_Ret[of "stop_all (internalController env randomLB) sc ?name" p, OF stop] on_fStore_def)
  with none gone other show ?thesis by (intro exI) auto
qed

theorem delete_handler_removes_function_witness:
  "\<exists>ns p'. MakeDeleteHandler (internalController sample_net_env randomLB) sample_namespaces sample_scaling
      (Some (Inr \<lparr>df_FunctionName = ''f'', df_Namespace = ''prod''\<rparr>)) (sample_provider ns) = (Ret [], p') \<and>
    functionMetaData (fStore p') ''f'' = None \<and> replica_set (mStore p') ''f'' = {}"
proof (rule sample_internal)
  fix ns
  assume ns: "int_wf randomLB NewRandomLoadBalancer rlb_inv ns"
    "listed randomLB ns = (\<lambda>_. [])(''f'' := [''10.0.0.1'', ''10.0.0.2''])"
  let ?req = "\<lparr>df_FunctionName = ''f'', df_Namespace = ''prod''\<rparr>"
  have valid: "reject_namespace sample_namespaces (if df_Namespace ?req = '''' then DefaultFunctionNamespace else df_Namespace ?req) = None"
    by (simp add: reject_namespace_iff sample_namespaces_def NamespaceLabel_def)
  have known: "functionMetaData (fStore (sample_provider ns)) (df_FunctionName ?req) = Some (sample_md ''f'')"
    by (simp add: sample_provider_def sample_full_def)
  have ms: "mStore (sample_provider ns) = sample_machines ns" by (simp add: sample_provider_def)
  have ok: "store_ok (listed randomLB) (int_wf randomLB NewRandomLoadBalancer rlb_inv) (\<lambda>_. True) (mStore (sample_provider ns))"
    unfolding ms by (rule sample_store_ok) (simp_all add: ns)
  have free: "\<not> healthChecklock (mStore (sample_provider ns))" unfolding ms by (simp add: sample_machines_def)
  have small: "card (replica_set (mStore (sample_provider ns)) (df_FunctionName ?req)) < 2 ^ 64" unfolding ms by simp
  have order: "valid_order (sc_order sample_scaling)"
    and works: "\<forall>i. destroy_works (sc_envs sample_scaling i) \<and> valid_order (sc_orders sample_scaling i)"
    and kept: "choices_kept [] (sc_schedule sample_scaling)"
    by (simp_all add: sample_scaling_def sorted_order_valid sample_destroy_works)
  from delete_handler_removes_function[OF valid known ok free small order works kept, of sample_net_env] obtain p' where
    "MakeDeleteHandler (internalController sample_net_env randomLB) sample_namespaces sample_scaling
      (Some (Inr ?req)) (sample_provider ns) = (Ret [], p')"
    "functionMetaData (fStore p') = (functionMetaData (fStore (sample_provider ns)))(''f'' := None)"
    "replica_set (mStore p') ''f'' = {}" by auto
  then show ?thesis by (intro exI[of _ ns] exI[of _ p']) simp
qed

text \<open>A machine whose creation works is a replica of its service, and the only new one.\<close>

lemma NewMachine_adds_replica:
  assumes targ: "pack_target (md_Package md) = Some t" and works: "creation_works menv" and free: "\<not> ms_lock m"
    and net: "setup_network menv (uuid_NewUUID menv) = Ret (Inr iface)"
  obtains m' mc where "NewMachine menv md m = (Ret None, m')" and "is_running mc"
    and "machineInstanceMapv2 m' = (machineInstanceMapv2 m)(uuid_NewUUID menv \<mapsto> mc)"
    and "uuid_NewUUID menv \<in> replica_set m' (fd_Service (md_FunctionDeployment md))"
    and "networkController m' = networkController m"
    and "pending m' = pending m @ [(fd_Service (md_FunctionDeployment md), if_IP iface)]"
proof -
  have calls: "calls_succeed menv (function_request md t)" and sok: "service_ok menv"
    using works by (simp_all add: creation_works_def)
  obtain m1 x where run1: "createMachine menv (function_request md t) m = (Ret None, m1)"
    "machineInstanceMapv2 m1 (uuid_NewUUID menv) = Some (fst (machine_Start menv x))"
    by (rule createMachine_runs[OF calls sok free]) (erule that, simp)
  show thesis
  proof (rule createMachine_success[OF calls sok free])
    fix m' mc iface'
    assume run: "createMachine menv (function_request md t) m = (Ret None, m')"
      and iface: "setup_network menv (uuid_NewUUID menv) = Ret (Inr iface')"
      and inst: "machineInstanceMapv2 m' = (machineInstanceMapv2 m)(uuid_NewUUID menv \<mapsto> mc)"
      and lbl: "map_heap m' (mc_Labels mc) service_label = Some (mr_Service (function_request md t))"
      and pend: "pending m' = pending m @ [(mr_Service (function_request md t), if_IP iface')]"
      and nc: "networkController m' = networkController m"
    have svc: "mr_Service (function_request md t) = fd_Service (md_FunctionDeployment md)"
      by (simp add: function_request_def Let_def)
    have running: "is_running mc" using run run1 inst works by (auto simp: creation_works_def)
    have "NewMachine menv md m = (Ret None, m')" using targ run by (simp add: NewMachine_def)
    moreover have "uuid_NewUUID menv \<in> replica_set m' (fd_Service (md_FunctionDeployment md))"
      using running lbl svc by (simp add: replica_set_def serves_def inst service_of_def go_lookup_def)
    ultimately show thesis using that running inst nc pend iface net svc by simp
  qed
qed

text \<open>
  C2: a deployed function can be invoked once its watchdog answers, and not before, with the internal
  controller: the deployment is answered with 200 and its machine is a replica; an invocation before the
  watchdog answers is an error; after it answered, and when the first health check succeeds, the
  function resolves to the watchdog of the new machine, and no machine is started.
\<close>

theorem deployed_function_resolves:
  assumes valid: "reject_namespace ns (getRequestNamespace (fd_Namespace req)) = None"
    and secrets: "validateSecrets stat (getNamespaceSecretMountPath mount (getRequestNamespace (fd_Namespace req)))
      (fd_Secrets req) = None"
    and added: "AddFunction fenv req (fStore p) = (Ret (Inr md), f')" and targ: "pack_target (md_Package md) = Some t"
    and works: "creation_works menv" and free: "\<not> ms_lock (mStore p)"
    and net: "setup_network menv (uuid_NewUUID menv) = Ret (Inr iface)"
    and fresh: "\<forall>v. if_IP iface \<notin> set (listed randomLB (networkController (mStore p)) v)"
    and none: "listed randomLB (networkController (mStore p)) (fd_Service req) = []"
    and replicas: "card (dom (machineInstanceMapv2 (mStore p))) < 2 ^ 64 - 1"
      "finite (dom (machineInstanceMapv2 (mStore p)))"
    and wf: "int_wf randomLB NewRandomLoadBalancer rlb_inv (networkController (mStore p))"
    and named: "actual_function_name name = fd_Service req" and ord: "valid_order order_of"
    and answers: "answers i" and healthy: "checkHealth env (if_IP iface) ''''"
  shows "\<exists>p' m' e p''. MakeDeployHandler ns stat fenv menv mount (Some (Inr req)) p = (Ret [WriteHeader StatusOK], p') \<and>
    uuid_NewUUID menv \<in> replica_set (mStore p') (fd_Service req) \<and>
    fst (Resolve (internalController env randomLB) menv' order_of name p') = Ret (Inl e) \<and>
    machine_ready (internalController env randomLB) answers (fd_Service req, if_IP iface) (mStore p') = (Ret (), m') \<and>
    Resolve (internalController env randomLB) menv' order_of name (p'\<lparr>mStore := m'\<rparr>) =
      (Ret (watchdog_url env (if_IP iface)), p'') \<and>
    machineInstanceMapv2 (mStore p'') = machineInstanceMapv2 (mStore p')"
proof -
  let ?nc = "internalController env randomLB" and ?svc = "fd_Service req"
  have md: "functionMetaData f' ?svc = Some md" "md_FunctionDeployment md = req" using AddFunction_done(2,3)[OF added] by simp_all
  obtain m1 mc where
    new: "NewMachine menv md (mStore p) = (Ret None, m1)" and rep: "uuid_NewUUID menv \<in> replica_set m1 ?svc"
      and inst: "machineInstanceMapv2 m1 = (machineInstanceMapv2 (mStore p))(uuid_NewUUID menv \<mapsto> mc)"
      and nc: "networkController m1 = networkController (mStore p)"
      and pend: "(?svc, if_IP iface) \<in> set (pending m1)"
    by (rule NewMachine_adds_replica[OF targ works free net, unfolded md(2)])
      (erule that, assumption, assumption, assumption, simp)
  let ?p1 = "p\<lparr>fStore := f', mStore := m1\<rparr>"
  have deploy: "MakeDeployHandler ns stat fenv menv mount (Some (Inr req)) p = (Ret [WriteHeader StatusOK], ?p1)"
    using secrets on_fStore_Ret[of "AddFunction fenv req" p, OF added]
      on_mStore_Ret[of "NewMachine menv md" "p\<lparr>fStore := f'\<rparr>" "Ret None" m1] new
    by (simp add: MakeDeployHandler_def with_namespace_None[OF valid] Let_def go_return_def)
  have res: "Resolve ?nc menv' order_of name (?p1\<lparr>mStore := m\<rparr>) =
      on_mStore (on_controller (ResolveServiceEndpoint ?nc ?svc)) (?p1\<lparr>mStore := m\<rparr>)"
    if "machineInstanceMapv2 m = machineInstanceMapv2 m1" "map_heap m = map_heap m1" for m
  proof -
    have fin: "finite (dom (machineInstanceMapv2 m))" using replicas(2) by (simp add: that inst)
    have "replica_set m ?svc = replica_set m1 ?svc" by (simp add: replica_set_def serves_def service_of_def that cong: option.case_cong)
    then have ne: "card (replica_set m ?svc) \<noteq> 0" using rep finite_replica_set[OF fin, of ?svc] by auto
    have "card (dom (machineInstanceMapv2 m)) \<le> Suc (card (dom (machineInstanceMapv2 (mStore p))))"
      using card_insert_le_m1 replicas(2) by (simp add: that inst card_insert_if)
    then have "card (replica_set m ?svc) < 2 ^ 64"
      using card_mono[OF fin replica_set_dom, of ?svc] replicas(1) by linarith
    from GetReplicas_unat[OF _ this] have "GetReplicas (order_of (machineInstanceMapv2 m)) ?svc m \<noteq> 0"
      using ord fin ne by (fastforce simp: valid_order_def)
    then show ?thesis using md(1) by (simp add: Resolve_def GetFunction_def named Let_def)
  qed
  from internal.resolve_empty[OF wf none, of env] obtain e ns0 where
    before: "ResolveServiceEndpoint ?nc ?svc (networkController m1) = (Ret (Inl e), ns0)" unfolding nc by blast
  have early: "fst (Resolve ?nc menv' order_of name ?p1) = Ret (Inl e)"
    using res[of m1] before by (simp add: on_mStore_def on_controller_def)
  obtain ns1 where
    ready: "machine_ready ?nc answers (?svc, if_IP iface) m1 =
      (Ret (), m1\<lparr>pending := remove1 (?svc, if_IP iface) (pending m1), networkController := ns1\<rparr>)"
    and ns1: "int_wf randomLB NewRandomLoadBalancer rlb_inv ns1" "listed randomLB ns1 ?svc = [if_IP iface]"
      "is_healthy ns1 (if_IP iface)"
    by (rule ready_internal[where answers = answers and i = i and env = env, OF wf[folded nc] pend fresh[folded nc] _ answers])
      (simp add: nc none, erule that, assumption, simp_all add: nc none healthy)
  let ?m2 = "m1\<lparr>pending := remove1 (?svc, if_IP iface) (pending m1), networkController := ns1\<rparr>"
  from resolve_only_address[OF ns1, of env] obtain ns2 where
    "ResolveServiceEndpoint ?nc ?svc ns1 = (Ret (watchdog_url env (if_IP iface)), ns2)" by auto
  then have "Resolve ?nc menv' order_of name (?p1\<lparr>mStore := ?m2\<rparr>) =
      (Ret (watchdog_url env (if_IP iface)), ?p1\<lparr>mStore := ?m2\<lparr>networkController := ns2\<rparr>\<rparr>)"
    using res[of ?m2] by (simp add: on_mStore_def on_controller_def)
  with deploy rep early ready show ?thesis
    by (intro exI[of _ ?p1] exI[of _ ?m2] exI[of _ e] exI[of _ "?p1\<lparr>mStore := ?m2\<lparr>networkController := ns2\<rparr>\<rparr>"]) simp
qed

theorem deployed_function_resolves_witness:
  "\<exists>n p' m' p''. MakeDeployHandler sample_namespaces (\<lambda>_. None) (sample_env (Inr (sample_pack ''app:v1'')) ''sha256:ab'')
      sample_menv ''/secrets'' (Some (Inr (sample_req ''f'' ''app:v1''))) \<lparr>fStore = sample_store, mStore = NewMachineStore n\<rparr> =
      (Ret [WriteHeader StatusOK], p') \<and>
    machine_ready (internalController sample_net_env randomLB) (\<lambda>i. i = 3) (''f'', ''10.0.0.3'') (mStore p') = (Ret (), m') \<and>
    Resolve (internalController sample_net_env randomLB) sample_menv (\<lambda>mp. sorted_list_of_set (dom mp)) ''f.openfaas-fn''
      (p'\<lparr>mStore := m'\<rparr>) = (Ret (Inr ''http://10.0.0.3:8123''), p'')"
proof -
  let ?req = "sample_req ''f'' ''app:v1''" and ?fenv = "sample_env (Inr (sample_pack ''app:v1'')) ''sha256:ab''"
  have "\<forall>opts. \<exists>l. NewRandomLoadBalancer opts = Inr l" using rlb.new_lb by blast
  from int_new_wf[OF this, of randomLB rlb_inv] obtain n where
    n: "int_wf randomLB NewRandomLoadBalancer rlb_inv n" "listed randomLB n = (\<lambda>_. [])" by blast
  let ?p = "\<lparr>fStore = sample_store, mStore = NewMachineStore n\<rparr>"
  have free: "\<not> ms_lock (mStore ?p)" by (simp add: NewMachineStore_def)
  have svc: "fd_Service ?req = ''f''" by (simp add: sample_req_def)
  have valid: "reject_namespace sample_namespaces (getRequestNamespace (fd_Namespace ?req)) = None"
    by (simp add: sample_req_def getRequestNamespace_def reject_namespace_iff DefaultFunctionNamespace_def)
  have secrets: "validateSecrets (\<lambda>_. None) x (fd_Secrets ?req) = None" for x by (simp add: sample_req_def)
  have added: "AddFunction ?fenv ?req (fStore ?p) = (Ret (Inr (sample_md ''f'')), sample_full ''f'')" by (simp add: sample_add)
  have targ: "pack_target (md_Package (sample_md ''f'')) = Some \<lparr>tg_Architecture = ''x86_64'', tg_Platform = ''qemu'',
      tg_Format = ''oci'', tg_Kernel = ''unikraft/bin/kernel''\<rparr>" by (simp add: sample_md_def sample_pack_def)
  have works: "creation_works sample_menv" using sample_creation_works[of "''uid3''"] by (simp add: sample_menv_def)
  obtain iface where net: "setup_network sample_menv (uuid_NewUUID sample_menv) = Ret (Inr iface)"
    and ip: "if_IP iface = ''10.0.0.3''" by (simp add: setup_network_def sample_menv_def own_interface_def Let_def)
  have fresh: "\<forall>v. if_IP iface \<notin> set (listed randomLB (networkController (mStore ?p)) v)"
    and none: "listed randomLB (networkController (mStore ?p)) (fd_Service ?req) = []"
    and wf: "int_wf randomLB NewRandomLoadBalancer rlb_inv (networkController (mStore ?p))"
    by (simp_all add: NewMachineStore_def n)
  have small: "card (dom (machineInstanceMapv2 (mStore ?p))) < 2 ^ 64 - 1" "finite (dom (machineInstanceMapv2 (mStore ?p)))"
    by (simp_all add: NewMachineStore_def)
  have name: "actual_function_name ''f.openfaas-fn'' = fd_Service ?req"
    using trim_suffix_append[of "''f''" "''.openfaas-fn''"]
    by (simp add: actual_function_name_def contains_char_def DefaultFunctionNamespace_def svc)
  have answers: "(\<lambda>i. i = 3) (3 :: nat)" by simp
  have healthy: "checkHealth sample_net_env (if_IP iface) ''''" by (simp add: checkHealth_def sample_net_env_def)
  have url: "watchdog_url sample_net_env ''10.0.0.3'' = Inr ''http://10.0.0.3:8123''"
    by (simp add: watchdog_url_def sample_net_env_def)
  from deployed_function_resolves[where answers = "\<lambda>i. i = 3" and menv' = sample_menv and mount = "''/secrets''",
      OF valid secrets added targ works free net fresh none small wf name sorted_order_valid answers healthy]
  show ?thesis unfolding ip svc url by (elim exE conjE) (intro exI conjI, assumption+)
qed

text \<open>
  C28: the first invocation of a function without replicas fails, with the internal controller: the
  resolver starts a machine, whose address waits for its watchdog, and resolves at once among no
  addresses. The machine is stored all the same.
\<close>

theorem cold_start_resolve_fails:
  assumes known: "functionMetaData (fStore p) (actual_function_name name) = Some md"
    and named: "fd_Service (md_FunctionDeployment md) = actual_function_name name"
    and none: "replica_set (mStore p) (actual_function_name name) = {}"
    and ord: "range_order (machineInstanceMapv2 (mStore p)) (order_of (machineInstanceMapv2 (mStore p)))"
    and wf: "int_wf randomLB NewRandomLoadBalancer rlb_inv (networkController (mStore p))"
    and empty: "listed randomLB (networkController (mStore p)) (actual_function_name name) = []"
    and targ: "pack_target (md_Package md) = Some t" and calls: "calls_succeed menv (function_request md t)"
    and sok: "service_ok menv" and free: "\<not> ms_lock (mStore p)"
  shows "\<exists>err p' ip. Resolve (internalController env randomLB) menv order_of name p = (Ret (Inl err), p') \<and>
    machineInstanceMapv2 (mStore p') (uuid_NewUUID menv) \<noteq> None \<and>
    pending (mStore p') = pending (mStore p) @ [(actual_function_name name, ip)]"
proof (rule createMachine_success[OF calls sok free])
  let ?name = "actual_function_name name"
  fix m' mc iface
  assume create: "createMachine menv (function_request md t) (mStore p) = (Ret None, m')"
    and inst: "machineInstanceMapv2 m' = (machineInstanceMapv2 (mStore p))(uuid_NewUUID menv \<mapsto> mc)"
    and nc: "networkController m' = networkController (mStore p)"
    and pend: "pending m' = pending (mStore p) @ [(mr_Service (function_request md t), if_IP iface)]"
  have new: "NewMachine menv md (mStore p) = (Ret None, m')" using targ create by (simp add: NewMachine_def)
  have zero: "GetReplicas (order_of (machineInstanceMapv2 (mStore p))) ?name (mStore p) = 0"
    by (simp add: GetReplicas_card[OF ord] none)
  from internal.resolve_empty[OF wf empty, of env] obtain e ns' where
    res: "ResolveServiceEndpoint (internalController env randomLB) ?name (networkController m') = (Ret (Inl e), ns')"
    unfolding nc by blast
  have "Resolve (internalController env randomLB) menv order_of name p =
      (Ret (Inl e), p\<lparr>mStore := m'\<lparr>networkController := ns'\<rparr>\<rparr>)"
    using known zero res
    by (simp add: Resolve_def GetFunction_def Let_def on_mStore_Ret[of "NewMachine menv md" p, OF new])
      (simp add: on_mStore_def on_controller_def)
  moreover have "mr_Service (function_request md t) = ?name" using named by (simp add: function_request_def Let_def)
  ultimately show ?thesis using inst pend by (intro exI conjI) auto
qed

theorem cold_start_resolve_fails_witness:
  "\<exists>n err p'. Resolve (internalController sample_net_env randomLB) sample_menv (\<lambda>_. []) ''f.openfaas-fn''
      \<lparr>fStore = sample_full ''f'', mStore = NewMachineStore n\<rparr> = (Ret (Inl err), p') \<and>
    pending (mStore p') \<noteq> []"
proof -
  have "\<forall>opts. \<exists>l. NewRandomLoadBalancer opts = Inr l" using rlb.new_lb by blast
  from int_new_wf[OF this, of randomLB rlb_inv] obtain n where
    n: "int_wf randomLB NewRandomLoadBalancer rlb_inv n" "listed randomLB n = (\<lambda>_. [])" by blast
  let ?p = "\<lparr>fStore = sample_full ''f'', mStore = NewMachineStore n\<rparr>"
  have name: "actual_function_name ''f.openfaas-fn'' = ''f''"
    using trim_suffix_append[of "''f''" "''.openfaas-fn''"]
    by (simp add: actual_function_name_def contains_char_def DefaultFunctionNamespace_def)
  have nm: "networkController (NewMachineStore n) = n" "\<not> ms_lock (NewMachineStore n)"
    "machineInstanceMapv2 (NewMachineStore n) = Map.empty" by (simp_all add: NewMachineStore_def)
  have known: "functionMetaData (fStore ?p) (actual_function_name ''f.openfaas-fn'') = Some (sample_md ''f'')"
    and named: "fd_Service (md_FunctionDeployment (sample_md ''f'')) = actual_function_name ''f.openfaas-fn''"
    by (simp_all add: name sample_full_def sample_md_def sample_req_def)
  have none: "replica_set (mStore ?p) (actual_function_name ''f.openfaas-fn'') = {}"
    using replica_set_dom[of "NewMachineStore n"] by (simp add: nm)
  have ord: "range_order (machineInstanceMapv2 (mStore ?p)) ((\<lambda>_. []) (machineInstanceMapv2 (mStore ?p)))"
    by (simp add: range_order_def nm)
  have wf: "int_wf randomLB NewRandomLoadBalancer rlb_inv (networkController (mStore ?p))"
    and empty: "listed randomLB (networkController (mStore ?p)) (actual_function_name ''f.openfaas-fn'') = []"
    by (simp_all add: nm n)
  have targ: "pack_target (md_Package (sample_md ''f'')) = Some \<lparr>tg_Architecture = ''x86_64'', tg_Platform = ''qemu'',
      tg_Format = ''oci'', tg_Kernel = ''unikraft/bin/kernel''\<rparr>" by (simp add: sample_md_def sample_pack_def)
  have free: "\<not> ms_lock (mStore ?p)" by (simp add: nm)
  from cold_start_resolve_fails[OF known named none ord wf empty targ sample_calls_succeed sample_menv_ok free,
      of sample_net_env] obtain err p' ip where
    "Resolve (internalController sample_net_env randomLB) sample_menv (\<lambda>_. []) ''f.openfaas-fn'' ?p = (Ret (Inl err), p')"
    "pending (mStore p') = pending (mStore ?p) @ [(actual_function_name ''f.openfaas-fn'', ip)]" by blast
  then show ?thesis by (intro exI[of _ n] exI[of _ err] exI[of _ p']) simp
qed

lemma list_statuses_map:
  "set names \<subseteq> dom m \<Longrightarrow> list_statuses m names = map (\<lambda>name. status_of name (the (m name)) 0) names"
  by (induction names) auto

lemma status_of_name [simp]: "st_Name (status_of name md created) = name"
  by (simp add: status_of_def Let_def)

text \<open>
  C29: the list handler answers with every deployed function exactly once, each with the number of its
  running replicas and of its available addresses, and changes nothing. The namespace of the query is
  only checked: the functions of every namespace are listed for any valid one.
\<close>

theorem list_handler_lists_all_functions:
  assumes forder: "range_order (functionMetaData (fStore p)) forder"
    and orders: "\<forall>name. range_order (machineInstanceMapv2 (mStore p)) (orders name)"
    and valid: "reject_namespace ns (getRequestNamespace (readNamespaceFromQuery query)) = None"
  shows "\<exists>sts. MakeReadHandler nc ns forder orders query p = (Ret (json_ok (JStatuses sts)), p) \<and>
    distinct (map st_Name sts) \<and> set (map st_Name sts) = dom (functionMetaData (fStore p)) \<and>
    (\<forall>st\<in>set sts. \<exists>md. functionMetaData (fStore p) (st_Name st) = Some md \<and>
       st_Image st = fd_Image (md_FunctionDeployment md) \<and>
       st_Namespace st = fd_Namespace (md_FunctionDeployment md) \<and>
       st_Replicas st = of_nat (card (replica_set (mStore p) (st_Name st))) \<and>
       st_AvailableReplicas st = GetAvailableReplicas nc (st_Name st) (mStore p))"
proof -
  let ?m = "functionMetaData (fStore p)"
  let ?sts = "map (with_replicas nc orders (mStore p)) (list_statuses ?m forder)"
  have sts: "?sts = map (\<lambda>name. with_replicas nc orders (mStore p) (status_of name (the (?m name)) 0)) forder"
    using range_orderD(2)[OF forder] by (simp add: list_statuses_map)
  have names: "map st_Name ?sts = forder"
    unfolding sts by (simp add: with_replicas_def o_def)
  have reps: "GetReplicas (orders name) name (mStore p) = of_nat (card (replica_set (mStore p) name))" for name
    using orders by (simp add: GetReplicas_card)
  have "\<exists>md. ?m (st_Name st) = Some md \<and> st_Image st = fd_Image (md_FunctionDeployment md) \<and>
       st_Namespace st = fd_Namespace (md_FunctionDeployment md) \<and>
       st_Replicas st = of_nat (card (replica_set (mStore p) (st_Name st))) \<and>
       st_AvailableReplicas st = GetAvailableReplicas nc (st_Name st) (mStore p)" if "st \<in> set ?sts" for st
  proof -
    from that[unfolded sts] obtain name where name: "name \<in> set forder"
      "st = with_replicas nc orders (mStore p) (status_of name (the (?m name)) 0)" by auto
    then obtain md where "?m name = Some md" using range_orderD(2)[OF forder] by auto
    with name(2) show ?thesis by (simp add: with_replicas_def status_of_def Let_def reps)
  qed
  moreover have "MakeReadHandler nc ns forder orders query p = (Ret (json_ok (JStatuses ?sts)), p)"
    using valid by (simp add: MakeReadHandler_def ListFunctions_def)
  ultimately show ?thesis using names range_orderD[OF forder] by (intro exI[of _ ?sts]) simp
qed

lemma distinct_set_singleton:
  assumes "distinct xs" and "set xs = {a}"
  shows "xs = [a]"
proof (cases xs)
  case (Cons x ys)
  with assms(2) have "x = a" and "set ys \<subseteq> {a}" by auto
  moreover have "a \<notin> set ys" using assms(1) Cons \<open>x = a\<close> by simp
  ultimately show ?thesis using Cons by (cases ys) auto
qed (use assms(2) in simp)

theorem list_handler_lists_all_functions_witness:
  "\<exists>st. MakeReadHandler sample_nc sample_namespaces [''f''] (\<lambda>_. [''uid1'', ''uid2'']) [''namespace'' \<mapsto> ''prod'']
      (sample_provider ()) = (Ret (json_ok (JStatuses [st])), sample_provider ()) \<and>
    st_Name st = ''f'' \<and> st_Namespace st = ''openfaas-fn'' \<and> st_Replicas st = 2"
proof -
  have forder: "range_order (functionMetaData (fStore (sample_provider ()))) [''f'']"
    by (simp add: range_order_def sample_provider_def sample_full_def)
  have orders: "\<forall>name. range_order (machineInstanceMapv2 (mStore (sample_provider ()))) ((\<lambda>_. [''uid1'', ''uid2'']) name)"
    by (simp add: sample_provider_def sample_order)
  have dom: "dom (functionMetaData (fStore (sample_provider ()))) = {''f''}"
    by (simp add: sample_provider_def sample_full_def)
  have valid: "reject_namespace sample_namespaces (getRequestNamespace (readNamespaceFromQuery [''namespace'' \<mapsto> ''prod''])) = None"
    by (simp add: reject_namespace_iff sample_namespaces_def NamespaceLabel_def readNamespaceFromQuery_def
        go_lookup_def getRequestNamespace_def)
  from list_handler_lists_all_functions[OF forder orders valid, of sample_nc] obtain sts where
    all: "MakeReadHandler sample_nc sample_namespaces [''f''] (\<lambda>_. [''uid1'', ''uid2'']) [''namespace'' \<mapsto> ''prod'']
      (sample_provider ()) = (Ret (json_ok (JStatuses sts)), sample_provider ()) \<and>
    distinct (map st_Name sts) \<and> set (map st_Name sts) = dom (functionMetaData (fStore (sample_provider ()))) \<and>
    (\<forall>st\<in>set sts. \<exists>md. functionMetaData (fStore (sample_provider ())) (st_Name st) = Some md \<and>
       st_Image st = fd_Image (md_FunctionDeployment md) \<and>
       st_Namespace st = fd_Namespace (md_FunctionDeployment md) \<and>
       st_Replicas st = of_nat (card (replica_set (mStore (sample_provider ())) (st_Name st))) \<and>
       st_AvailableReplicas st = GetAvailableReplicas sample_nc (st_Name st) (mStore (sample_provider ())))" ..
  note run = all[THEN conjunct1]
  have names: "distinct (map st_Name sts)" "set (map st_Name sts) = {''f''}"
    by (rule all[unfolded dom, THEN conjunct2, THEN conjunct1])
      (rule all[unfolded dom, THEN conjunct2, THEN conjunct2, THEN conjunct1])
  note each = all[THEN conjunct2, THEN conjunct2, THEN conjunct2]
  from names have "map st_Name sts = [''f'']" by (rule distinct_set_singleton)
  then obtain st where st: "sts = [st]" "st_Name st = ''f''" by (cases sts) auto
  with each have "st_Namespace st = ''openfaas-fn''" "st_Replicas st = 2"
    by (auto simp: sample_provider_def sample_full_def sample_md_def sample_req_def)
  moreover have "MakeReadHandler sample_nc sample_namespaces [''f''] (\<lambda>_. [''uid1'', ''uid2'']) [''namespace'' \<mapsto> ''prod'']
      (sample_provider ()) = (Ret (json_ok (JStatuses [st])), sample_provider ())"
    using run unfolding st(1) .
  ultimately show ?thesis using st(2) by (intro exI[of _ st] conjI)
qed

lemma list_namespaces_members:
  "set (list_namespaces ns names acc) =
     set acc \<union> {n \<in> set names. \<exists>l. ns_Labels ns n = Inr l \<and> l NamespaceLabel \<noteq> None} \<union>
     (if \<exists>n\<in>set names. \<exists>l. ns_Labels ns n = Inr l then {DefaultFunctionNamespace} else {})"
proof (induction names arbitrary: acc)
  case Nil
  then show ?case by simp
next
  case (Cons n rest)
  show ?case
  proof (cases "ns_Labels ns n")
    case (Inl err)
    with Cons.IH[of acc] show ?thesis by auto
  next
    case (Inr labels)
    let ?acc1 = "if labels NamespaceLabel \<noteq> None then acc @ [n] else acc"
    let ?acc2 = "if findNamespace DefaultFunctionNamespace ?acc1 then ?acc1 else ?acc1 @ [DefaultFunctionNamespace]"
    have "set ?acc2 = set acc \<union> (if labels NamespaceLabel \<noteq> None then {n} else {}) \<union> {DefaultFunctionNamespace}"
      by (auto simp: findNamespace_def)
    moreover have "set (list_namespaces ns (n # rest) acc) = set (list_namespaces ns rest ?acc2)"
      using Inr by (simp add: Let_def)
    ultimately show ?thesis unfolding Cons.IH[of ?acc2]
      by (cases "\<exists>n\<in>set rest. \<exists>l. ns_Labels ns n = Inr l") (auto simp: Inr)
  qed
qed

text \<open>
  C30: the namespaces that are listed are those that carry the label, with any value, and the default
  one as soon as the labels of some namespace could be read; a request is accepted for the default
  namespace and for those whose label is \<open>true\<close>. So a namespace labelled otherwise is listed but
  refused, and the default one is accepted but missing from the answer when containerd has none.
\<close>

theorem listed_and_valid_namespaces:
  assumes "ns_List ns = Inr names"
  shows "set (ListNamespaces ns) =
      {n \<in> set names. \<exists>l. ns_Labels ns n = Inr l \<and> l NamespaceLabel \<noteq> None} \<union>
      (if \<exists>n\<in>set names. \<exists>l. ns_Labels ns n = Inr l then {DefaultFunctionNamespace} else {}) \<and>
    (\<forall>n. reject_namespace ns n = None \<longleftrightarrow> n = DefaultFunctionNamespace \<or>
      (\<exists>l. ns_Labels ns n = Inr l \<and> l NamespaceLabel = Some ''true''))"
  using assms by (simp add: ListNamespaces_def list_namespaces_members reject_namespace_iff)

theorem listed_and_valid_namespaces_witness:
  "''dev'' \<in> set (ListNamespaces sample_namespaces) \<and> reject_namespace sample_namespaces ''dev'' \<noteq> None"
proof -
  have names: "ns_List sample_namespaces = Inr [''prod'', ''dev'']" by (simp add: sample_namespaces_def)
  have dev: "ns_Labels sample_namespaces ''dev'' = Inr [''openfaas'' \<mapsto> ''no'']" by (simp add: sample_namespaces_def)
  have "''dev'' \<in> {n \<in> set [''prod'', ''dev'']. \<exists>l. ns_Labels sample_namespaces n = Inr l \<and> l NamespaceLabel \<noteq> None}"
    by (simp add: dev NamespaceLabel_def)
  moreover have "\<not> (''dev'' = DefaultFunctionNamespace \<or>
      (\<exists>l. ns_Labels sample_namespaces ''dev'' = Inr l \<and> l NamespaceLabel = Some ''true''))"
    by (simp add: dev NamespaceLabel_def DefaultFunctionNamespace_def)
  ultimately show ?thesis using listed_and_valid_namespaces[OF names] by blast
qed

lemma namespace_secret_path:
  assumes "ps \<noteq> []" and "\<forall>p\<in>set ps. path_name p" and "path_name n"
  shows "getNamespaceSecretMountPath (abs_path ps) n = abs_path (ps @ [n])"
  using path_Join_name[OF assms] by (simp add: getNamespaceSecretMountPath_def)

text \<open>
  C31: the check of the secrets does not stay in the namespace: for two namespaces, a secret written
  as \<open>../other/s\<close> in the one is accepted exactly when the secret \<open>s\<close> of the other exists.
\<close>

theorem secret_of_other_namespace_accepted:
  assumes "ps \<noteq> []" and "\<forall>p\<in>set ps. path_name p" and "path_name n" and "path_name other" and "path_name s"
  shows "validateSecrets stat (getNamespaceSecretMountPath (abs_path ps) n) [''../'' @ other @ ''/'' @ s] = None \<longleftrightarrow>
    validateSecrets stat (getNamespaceSecretMountPath (abs_path ps) other) [s] = None"
proof -
  have "path_Join [abs_path (ps @ [n]), ''../'' @ other @ ''/'' @ s] = abs_path (ps @ [other, s])"
    by (rule path_Join_up[OF assms])
  moreover have "path_Join [abs_path (ps @ [other]), s] = abs_path ((ps @ [other]) @ [s])"
    using assms by (intro path_Join_name) auto
  ultimately show ?thesis
    using namespace_secret_path[OF assms(1,2,3)] namespace_secret_path[OF assms(1,2,4)]
    by (simp split: option.split)
qed

theorem secret_of_other_namespace_accepted_witness:
  "validateSecrets (\<lambda>f. if f = ''/secrets/prod/key'' then None else Some (LibError ''absent''))
    (getNamespaceSecretMountPath (abs_path [''secrets'']) ''dev'') [''../prod/key''] = None"
proof -
  let ?stat = "\<lambda>f. if f = ''/secrets/prod/key'' then None else Some (LibError ''absent'')"
  have names: "\<forall>p\<in>set [''secrets'']. path_name p" "path_name ''dev''" "path_name ''prod''" "path_name ''key''"
    by (simp_all add: path_name_def)
  have "path_Join [abs_path ([''secrets''] @ [''prod'']), ''key''] = abs_path (([''secrets''] @ [''prod'']) @ [''key''])"
    using names by (intro path_Join_name) auto
  then have "validateSecrets ?stat (getNamespaceSecretMountPath (abs_path [''secrets'']) ''prod'') [''key''] = None"
    using namespace_secret_path[OF _ names(1,3)] by (simp add: abs_path_def)
  then show ?thesis
    using secret_of_other_namespace_accepted[OF _ names, of ?stat] by simp
qed

end
