(* ===== verification/LegacyDeploy.thy ===== *)
theory LegacyDeploy
  imports MachineStore
begin

text \<open>
  The function \<open>Deploy\<close> of \<open>pkg/provider/handlers/deploy.go\<close>, the first way of deploying, which only
  its test still calls: one function that finds the image, pulls it into the state directory of a new
  machine, attaches a volume and an interface, and creates, watches and starts the machine.
\<close>

section \<open>Data\<close>

text \<open>What the function sets of a machine.\<close>

record DeployMachine =
  dm_UID :: string
  dm_Name :: string
  dm_Architecture :: string
  dm_Platform :: string
  dm_Kernel :: string
  dm_KernelPath :: string
  dm_Memory :: "string option"
  dm_Volumes :: "string list"
  dm_Networks :: "NetIface list list"
  dm_StateDir :: string

text \<open>What it leaves behind: directories, the interfaces of the bridge, a watcher, a request to shut down, output.\<close>

record deploy_state =
  ds_dirs :: "string set"
  ds_bridge :: "NetIface list"
  ds_watched :: "DeployMachine option"
  ds_shutdown :: bool
  ds_out :: string

text \<open>
  The answers of the libraries. A method of the machine controller answers with the machine, whether
  it is nil, and the error; the bridge answers with the interfaces it then has.
\<close>

record deploy_env =
  de_NewOCIManager :: "go_error option"
  de_NewContainerdHandler :: "go_error option"
  de_images :: fstore_env
  de_NewUUID1 :: string
  de_NewUUID2 :: string
  de_MkdirAll :: "string \<Rightarrow> go_error option"
  de_Detect :: "string \<times> go_error option"
  de_Format :: string
  de_ParseQuantity :: "string \<Rightarrow> go_error + string"
  de_NewVolumeService :: "go_error option"
  de_volume_Create :: "string \<Rightarrow> go_error + string"
  de_NewNetworkService :: "go_error option"
  de_network_Get :: "string \<Rightarrow> NetIface list \<Rightarrow> go_error option"
  de_network_Update :: "NetIface list \<Rightarrow> go_error + NetIface list"
  de_NewRandomMachineName :: string
  de_Strategies :: "string \<Rightarrow> bool"
  de_NewMachineV1alpha1 :: "string \<Rightarrow> go_error option"
  de_Create :: "DeployMachine \<Rightarrow> DeployMachine \<times> bool \<times> go_error option"
  de_Start :: "DeployMachine \<Rightarrow> DeployMachine \<times> bool \<times> go_error option"

section \<open>The steps\<close>

text \<open>
  The loop over the manifests. Its variable \<open>err\<close> is its own; a package that could not be made leaves
  \<open>ocipack\<close> nil.
\<close>

fun find_ocipack :: "fstore_env \<Rightarrow> string \<Rightarrow> Manifest list \<Rightarrow> Package option \<Rightarrow> Package option" where
  "find_ocipack env refName [] ocipack = ocipack"
| "find_ocipack env refName (manifest # rest) ocipack =
     (case mf_Annotations manifest ''org.unikraft.image.name'' of
        None \<Rightarrow> find_ocipack env refName rest ocipack
      | Some unikernelName \<Rightarrow>
          (case mf_Annotations manifest ''org.unikraft.image.version'' of
             None \<Rightarrow> find_ocipack env refName rest ocipack
           | Some unikernelVersion \<Rightarrow>
               (if unikernelName @ '':'' @ unikernelVersion = refName
                then (case NewPackageFromOCIManifestSpec env refName manifest of
                        Inr p \<Rightarrow> Some p
                      | Inl err \<Rightarrow> find_ocipack env refName rest None)
                else find_ocipack env refName rest ocipack)))"

text \<open>The image of the request, before anything is created.\<close>

definition find_image :: "deploy_env \<Rightarrow> string \<Rightarrow> go_error + Package" where
  "find_image env img =
     (case de_NewOCIManager env of
        Some err \<Rightarrow> Inl (Wrapf ''pm initialisation failed with: '' err)
      | None \<Rightarrow>
          (case ParseReference (de_images env) img of
             Inl refErr \<Rightarrow> Inl (Wrapf ''name parse failed with: '' refErr)
           | Inr refName \<Rightarrow>
               (case de_NewContainerdHandler env of
                  Some err \<Rightarrow> Inl (Wrapf ''handler initialisation failed with: '' err)
                | None \<Rightarrow>
                    (case ListManifests (de_images env) of
                       Inl err \<Rightarrow> Inl (Wrapf ''list manifests failed with: '' err)
                     | Inr manifests \<Rightarrow>
                         (case find_ocipack (de_images env) refName manifests None of
                            None \<Rightarrow> Inl (Errorf ''no manifests found'')
                          | Some ocipack \<Rightarrow> Inr ocipack)))))"

text \<open>
  An exit of the rest of the function, for its deferred function: the error it returns, whether the
  variable \<open>err\<close> is set at that point, and the state directory of its variable \<open>machine\<close> unless that
  is nil. A panic runs the deferred function too.
\<close>

record deploy_exit =
  dx_result :: "go_error option outcome"
  dx_err :: bool
  dx_dir :: "string option"

definition leave :: "go_error option outcome \<Rightarrow> bool \<Rightarrow> string \<Rightarrow> deploy_exit" where
  "leave r errSet dir = \<lparr>dx_result = r, dx_err = errSet, dx_dir = Some dir\<rparr>"

text \<open>
  Creating, watching and starting the machine. The watcher runs beside the rest of the function.
\<close>

definition launch :: "deploy_env \<Rightarrow> DeployMachine \<Rightarrow> deploy_state \<Rightarrow> deploy_exit \<times> deploy_state" where
  "launch env machine s =
     (let platform = fst (de_Detect env) in
          (if \<not> de_Strategies env platform
           then (leave (Ret (Some (Errorf (''platform '' @ platform @ '' not supported'')))) False (dm_StateDir machine), s)
           else case de_NewMachineV1alpha1 env platform of
                  Some err \<Rightarrow> (leave (Ret (Some err)) True (dm_StateDir machine), s)
                | None \<Rightarrow>
                    (case de_Create env machine of
                       (created, isnil, Some err) \<Rightarrow>
                         (\<lparr>dx_result = Ret (Some err), dx_err = True, dx_dir = (if isnil then None else Some (dm_StateDir created))\<rparr>, s)
                     | (created, isnil, None) \<Rightarrow>
                         (let s1 = s\<lparr>ds_watched := (if isnil then None else Some created)\<rparr> in
                          case de_Start env created of
                            (running, isnil', Some err) \<Rightarrow>
                              (\<lparr>dx_result = Ret (Some err), dx_err = True, dx_dir = (if isnil' then None else Some (dm_StateDir running))\<rparr>,
                               s1\<lparr>ds_shutdown := True\<rparr>)
                          | (running, isnil', None) \<Rightarrow>
                              (if isnil' then (\<lparr>dx_result = Panic ''nil pointer dereference'', dx_err = False, dx_dir = None\<rparr>, s1)
                               else (leave (Ret None) False (dm_StateDir running),
                                     s1\<lparr>ds_out := ds_out s1 @ dm_Name running @ [CHR 0x0A]\<rparr>))))))"

text \<open>
  The interface: the error of the constructor of the network service is overwritten, and a nil service
  panics with that error still in \<open>err\<close>.
\<close>

definition deploy_network :: "string" where "deploy_network = ''docker0''"

definition attach_network :: "deploy_env \<Rightarrow> DeployMachine \<Rightarrow> deploy_state \<Rightarrow> deploy_exit \<times> deploy_state" where
  "attach_network env machine s =
     (case de_NewNetworkService env of
        Some err \<Rightarrow> (leave (Panic ''nil pointer dereference'') True (dm_StateDir machine), s)
      | None \<Rightarrow>
          (case de_network_Get env deploy_network (ds_bridge s) of
             Some err \<Rightarrow> (leave (Ret (Some err)) True (dm_StateDir machine), s)
           | None \<Rightarrow>
               (let newIface = \<lparr>if_UID = de_NewUUID2 env, if_IfName = '''', if_IP = ''''\<rparr> in
                case de_network_Update env (ds_bridge s @ [newIface]) of
                  Inl err \<Rightarrow> (leave (Ret (Some err)) True (dm_StateDir machine), s)
                | Inr ifaces \<Rightarrow>
                    launch env
                      (machine\<lparr>dm_Networks := [[own_interface newIface ifaces]], dm_Name := de_NewRandomMachineName env\<rparr>)
                      (s\<lparr>ds_bridge := ifaces\<rparr>))))"

text \<open>The volume: a failed \<open>Create\<close> answers with nil, which the code reads before it looks at the error.\<close>

definition attach_volume :: "deploy_env \<Rightarrow> DeployMachine \<Rightarrow> deploy_state \<Rightarrow> deploy_exit \<times> deploy_state" where
  "attach_volume env machine s =
     (case de_NewVolumeService env of
        Some err \<Rightarrow> (leave (Ret (Some (Errorf ''volume service failed''))) True (dm_StateDir machine), s)
      | None \<Rightarrow>
          (case de_volume_Create env (path_Join [dm_StateDir machine, ''unikraft/fs0'']) of
             Inl err \<Rightarrow> (leave (Panic ''nil pointer dereference'') True (dm_StateDir machine), s)
           | Inr fs0 \<Rightarrow> attach_network env (machine\<lparr>dm_Volumes := [fs0]\<rparr>) s))"

text \<open>The memory of the machine; the error of the quantity is a variable of its block.\<close>

definition with_limits ::
  "deploy_env \<Rightarrow> FunctionDeployment \<Rightarrow> DeployMachine \<Rightarrow> deploy_state \<Rightarrow> deploy_exit \<times> deploy_state" where
  "with_limits env req machine s =
     (case fd_Limits req of
        None \<Rightarrow> attach_volume env machine s
      | Some limits \<Rightarrow>
          (if res_Memory limits = '''' then attach_volume env machine s
           else case de_ParseQuantity env (res_Memory limits) of
                  Inl err \<Rightarrow> (leave (Ret (Some err)) False (dm_StateDir machine), s)
                | Inr quantity \<Rightarrow> attach_volume env (machine\<lparr>dm_Memory := Some quantity\<rparr>) s))"

text \<open>After the state directory: the error of \<open>Detect\<close> is overwritten by that of the pull.\<close>

definition deploy_body ::
  "deploy_env \<Rightarrow> FunctionDeployment \<Rightarrow> Package \<Rightarrow> DeployMachine \<Rightarrow> deploy_state \<Rightarrow> deploy_exit \<times> deploy_state" where
  "deploy_body env req ocipack machine s =
     (case Pull (de_images env) ocipack (dm_StateDir machine) (fst (de_Detect env)) of
        Inl err \<Rightarrow> (leave (Ret (Some err)) True (dm_StateDir machine), s)
      | Inr pulled \<Rightarrow>
          (case pack_target pulled of
             None \<Rightarrow> (leave (Ret (Some (Errorf ''package does not convert to target''))) False (dm_StateDir machine), s)
           | Some targ \<Rightarrow>
               with_limits env req
                 (machine\<lparr>dm_Architecture := tg_Architecture targ, dm_Platform := tg_Platform targ,
                    dm_Kernel := de_Format env @ ''://'' @ fd_Image req, dm_KernelPath := tg_Kernel targ\<rparr>) s))"

text \<open>The deferred function.\<close>

definition deploy_cleanup :: "deploy_exit \<times> deploy_state \<Rightarrow> go_error option outcome \<times> deploy_state" where
  "deploy_cleanup ex =
     (case ex of (x, s) \<Rightarrow>
        (if \<not> dx_err x then (dx_result x, s)
         else case dx_dir x of
                None \<Rightarrow> (Panic ''nil pointer dereference'', s)
              | Some dir \<Rightarrow> (dx_result x, s\<lparr>ds_dirs := ds_dirs s - {dir}\<rparr>)))"

definition empty_machine :: "string \<Rightarrow> string \<Rightarrow> DeployMachine" where
  "empty_machine uid dir = \<lparr>dm_UID = uid, dm_Name = '''', dm_Architecture = '''', dm_Platform = '''', dm_Kernel = '''',
     dm_KernelPath = '''', dm_Memory = None, dm_Volumes = [], dm_Networks = [], dm_StateDir = dir\<rparr>"

definition Deploy :: "deploy_env \<Rightarrow> FunctionDeployment \<Rightarrow> (deploy_state, go_error option) go" where
  "Deploy env req s =
     (case find_image env (fd_Image req) of
        Inl err \<Rightarrow> (Ret (Some err), s)
      | Inr ocipack \<Rightarrow>
          (let dir = path_Join [''/tmp/kraftkit'', de_NewUUID1 env] in
           case de_MkdirAll env dir of
             Some err \<Rightarrow> (Ret (Some err), s)
           | None \<Rightarrow> deploy_cleanup (deploy_body env req ocipack (empty_machine (de_NewUUID1 env) dir)
                       (s\<lparr>ds_dirs := insert dir (ds_dirs s)\<rparr>))))"

text \<open>
  The watcher: it reads what the two channels and the context give it, one after the other, until one
  ends it, and then stops and removes the machine. The result says whether it asks to shut down, what
  it calls, and whether it ends at all.
\<close>

datatype watch_event = MachineUpdate MachineState | WatchError | ContextDone

fun watch_loop :: "watch_event list \<Rightarrow> bool option" where
  "watch_loop [] = None"
| "watch_loop (ev # events) =
     (case ev of
        MachineUpdate st \<Rightarrow> (if st = MachineStateExited \<or> st = MachineStateFailed then Some True else watch_loop events)
      | WatchError \<Rightarrow> Some True
      | ContextDone \<Rightarrow> Some False)"

datatype watch_call = StopCall | DeleteCall

definition watch_machine ::
  "go_error option \<Rightarrow> watch_event list \<Rightarrow> go_error option \<Rightarrow> (bool \<times> watch_call list) option" where
  "watch_machine watchErr events stopErr =
     (case watchErr of
        Some err \<Rightarrow> Some (True, [])
      | None \<Rightarrow>
          (case watch_loop events of
             None \<Rightarrow> None
           | Some shutdown \<Rightarrow> Some (shutdown, if stopErr = None then [StopCall, DeleteCall] else [StopCall])))"

section \<open>What a failed deployment leaves behind\<close>

text \<open>
  When the pull, the volume and the bridge have succeeded and the platform then turns out to be
  unsupported, \<open>err\<close> is nil: the state directory stays on disk and the new interface on the bridge.
\<close>

lemma unsupported_platform_leaks:
  assumes img: "find_image env (fd_Image req) = Inr ocipack" and mk: "\<And>d. de_MkdirAll env d = None"
    and pull: "\<And>d pf. Pull (de_images env) ocipack d pf = Inr pulled" and targ: "pack_target pulled = Some t"
    and limits: "fd_Limits req = None"
    and volume: "de_NewVolumeService env = None" "\<And>v. de_volume_Create env v = Inr v"
    and bridge: "de_NewNetworkService env = None" "\<And>b. de_network_Get env deploy_network b = None"
      "\<And>b. de_network_Update env b = Inr b"
    and platform: "\<not> de_Strategies env (fst (de_Detect env))"
  shows "\<exists>s'. Deploy env req s =
      (Ret (Some (Errorf (''platform '' @ fst (de_Detect env) @ '' not supported''))), s') \<and>
    path_Join [''/tmp/kraftkit'', de_NewUUID1 env] \<in> ds_dirs s' \<and>
    ds_bridge s' = ds_bridge s @ [\<lparr>if_UID = de_NewUUID2 env, if_IfName = '''', if_IP = ''''\<rparr>]"
  using platform
  by (simp add: Deploy_def img mk deploy_body_def pull targ with_limits_def limits attach_volume_def volume
      attach_network_def bridge launch_def deploy_cleanup_def leave_def Let_def empty_machine_def)

lemma watch_loop_ends:
  "watch_loop events \<noteq> None \<longleftrightarrow>
    (\<exists>ev\<in>set events. ev = MachineUpdate MachineStateExited \<or> ev = MachineUpdate MachineStateFailed \<or>
       ev = WatchError \<or> ev = ContextDone)"
  by (induction events) (auto split: watch_event.splits)

end
