(* ===== verification/Logs.thy ===== *)
theory Logs
  imports GoPrelude
begin

text \<open>
  The log requester of \<open>pkg/logs/requester.go\<close>: the journalctl command that a request becomes, the
  parsing of a journal entry, and the goroutine that copies the entries into a channel. An instant is
  a number of nanoseconds since the Unix epoch; the part of \<open>time.Format\<close>, \<open>strconv.ParseInt\<close> and
  \<open>encoding/json\<close> that the code uses is written out.
\<close>

section \<open>Numbers in decimal\<close>

definition is_digit :: "char \<Rightarrow> bool" where
  "is_digit c \<longleftrightarrow> of_char c - of_char (CHR ''0'') < (10 :: nat) \<and> of_char (CHR ''0'') \<le> (of_char c :: nat)"

definition digit_value :: "char \<Rightarrow> nat" where
  "digit_value c = of_char c - of_char (CHR ''0'')"

text \<open>\<open>strconv.ParseInt\<close> in base 10 with 64 bits: an optional sign, then digits, within the range.\<close>

definition ErrSyntax :: go_error where "ErrSyntax = LibError ''invalid syntax''"
definition ErrRange :: go_error where "ErrRange = LibError ''value out of range''"

definition unsigned_part :: "string \<Rightarrow> string" where
  "unsigned_part s = (if s \<noteq> [] \<and> (hd s = CHR ''+'' \<or> hd s = CHR ''-'') then tl s else s)"

text \<open>The loop of \<open>ParseUint\<close>: it stops at the first character that is no digit or overflows.\<close>

fun ParseUint :: "nat \<Rightarrow> string \<Rightarrow> go_error + nat" where
  "ParseUint n [] = Inr n"
| "ParseUint n (c # cs) =
     (if \<not> is_digit c then Inl ErrSyntax
      else let n1 = 10 * n + digit_value c in
           if 2 ^ 64 \<le> n1 then Inl ErrRange else ParseUint n1 cs)"

definition ParseInt :: "string \<Rightarrow> go_error + 64 word" where
  "ParseInt s =
     (let ds = unsigned_part s; neg = (s \<noteq> [] \<and> hd s = CHR ''-'') in
      if ds = [] then Inl ErrSyntax
      else case ParseUint 0 ds of
             Inl err \<Rightarrow> Inl err
           | Inr n \<Rightarrow>
               if \<not> neg \<and> 2 ^ 63 \<le> n then Inl ErrRange
               else if neg \<and> 2 ^ 63 < n then Inl ErrRange
               else Inr (if neg then - of_nat n else of_nat n))"

section \<open>Instants and their format\<close>

type_synonym instant = int

definition Second :: int where "Second = 1000000000"
definition Minute :: int where "Minute = 60 * Second"

text \<open>
  The proleptic Gregorian date of a day counted from 1970-01-01, computed as usual in years that
  start in March, so that the leap day comes last: the year, the month and the day of the month.
\<close>

definition civil_date :: "int \<Rightarrow> int \<times> int \<times> int" where
  "civil_date days =
     (let z = days + 719468; era = z div 146097; doe = z mod 146097;
          yoe = (doe - doe div 1460 + doe div 36524 - doe div 146096) div 365;
          doy = doe - (365 * yoe + yoe div 4 - yoe div 100);
          mp = (5 * doy + 2) div 153;
          d = doy - (153 * mp + 2) div 5 + 1;
          m = (if mp < 10 then mp + 3 else mp - 9);
          y = yoe + era * 400
      in (if m \<le> 2 then y + 1 else y, m, d))"

text \<open>A number with at least \<open>w\<close> digits, a minus sign in front when it is negative.\<close>

definition pad_nat :: "nat \<Rightarrow> nat \<Rightarrow> string" where
  "pad_nat w n = replicate (w - length (itoa n)) (CHR ''0'') @ itoa n"

definition pad_int :: "nat \<Rightarrow> int \<Rightarrow> string" where
  "pad_int w i = (if i < 0 then ''-'' @ pad_nat w (nat (- i)) else pad_nat w (nat i))"

text \<open>\<open>t.UTC().Format("2006-01-02 15:04:05")\<close>.\<close>

definition Format :: "instant \<Rightarrow> string" where
  "Format t =
     (let secs = t div Second; sod = secs mod 86400 in
      case civil_date (secs div 86400) of (y, m, d) \<Rightarrow>
        pad_int 4 y @ ''-'' @ pad_int 2 m @ ''-'' @ pad_int 2 d @ '' '' @
        pad_int 2 (sod div 3600) @ '':'' @ pad_int 2 (sod mod 3600 div 60) @ '':'' @ pad_int 2 (sod mod 60))"

section \<open>The command\<close>

record log_Request =
  lr_Name :: string
  lr_Namespace :: string
  lr_Instance :: string
  lr_Since :: "instant option"
  lr_Tail :: "64 word"
  lr_Follow :: bool

record log_Message =
  lm_Name :: string
  lm_Namespace :: string
  lm_Instance :: string
  lm_Timestamp :: instant
  lm_Text :: string

text \<open>
  The start of the interval: five minutes before the first reading of the clock, or the instant
  asked for when it is before the second reading.
\<close>

definition log_since :: "instant \<Rightarrow> instant \<Rightarrow> log_Request \<Rightarrow> instant" where
  "log_since now1 now2 req =
     (case lr_Since req of
        Some t \<Rightarrow> if t < now2 then t else now1 - 5 * Minute
      | None \<Rightarrow> now1 - 5 * Minute)"

text \<open>\<open>%d\<close> on a signed number.\<close>

definition itoa_int :: "int \<Rightarrow> string" where
  "itoa_int i = (if i < 0 then ''-'' @ itoa (nat (- i)) else itoa (nat i))"

definition log_namespace :: "log_Request \<Rightarrow> string" where
  "log_namespace req = (if lr_Namespace req = '''' then DefaultFunctionNamespace else lr_Namespace req)"

definition log_identifier :: "log_Request \<Rightarrow> string" where
  "log_identifier req = log_namespace req @ '':'' @ lr_Name req"

definition buildCmd :: "instant \<Rightarrow> instant \<Rightarrow> log_Request \<Rightarrow> string list" where
  "buildCmd now1 now2 req =
     [''journalctl'', ''--utc'', ''--no-pager'', ''--output=json'',
      ''--identifier='' @ log_identifier req,
      ''--since='' @ Format (log_since now1 now2 req)] @
     (if lr_Follow req then [''--follow''] else []) @
     (if 0 < sint (lr_Tail req) then [''--lines='' @ itoa_int (sint (lr_Tail req))] else [])"

section \<open>Entries\<close>

type_synonym entry = "string \<rightharpoonup> string"

definition zero_instant :: instant where
  "zero_instant = - 62135596800 * Second"

text \<open>The message is returned beside the error, with the fields that were set so far.\<close>

definition parseEntry :: "entry \<Rightarrow> log_Message \<times> go_error option" where
  "parseEntry e =
     (let logMsg = \<lparr>lm_Name = '''', lm_Namespace = '''', lm_Instance = go_lookup e ''_PID'',
            lm_Timestamp = zero_instant, lm_Text = go_lookup e ''MESSAGE''\<rparr>
      in case split_on (CHR '':'') (go_lookup e ''SYSLOG_IDENTIFIER'') of
           [namespace, name] \<Rightarrow>
             (let named = logMsg\<lparr>lm_Namespace := namespace, lm_Name := name\<rparr>
              in case e ''__REALTIME_TIMESTAMP'' of
                   None \<Rightarrow> (named, Some (Errorf ''missing required field __REALTIME_TIMESTAMP''))
                 | Some ts \<Rightarrow>
                     (case ParseInt ts of
                        Inl err \<Rightarrow> (named, Some (Wrapf ''invalid timestamp: '' err))
                      | Inr ms \<Rightarrow> (named\<lparr>lm_Timestamp := sint (ms * 1000)\<rparr>, None)))
         | _ \<Rightarrow> (logMsg, Some (Errorf ''invalid SYSLOG_IDENTIFIER'')))"

section \<open>The stream\<close>

text \<open>
  The channel to the reader has no buffer: a message is sent when the reader takes it. The decoder
  gives the entries one after the other, each decoded or with an error, until there are no more.
  \<open>cancelled\<close> says whether the context is done at the start of a round, \<open>reads\<close> whether the reader takes
  the message of that round; when it does not, the goroutine waits for ever.
\<close>

record channel =
  ch_received :: "log_Message list"
  ch_closed :: bool

fun stream_loop :: "(nat \<Rightarrow> bool) \<Rightarrow> (nat \<Rightarrow> bool) \<Rightarrow> nat \<Rightarrow> (go_error + entry) list \<Rightarrow> (channel, unit) go" where
  "stream_loop cancelled reads i [] ch = (Ret (), ch)"
| "stream_loop cancelled reads i (item # items) ch =
     (if cancelled i then (Ret (), ch)
      else case item of
             Inl err \<Rightarrow> (Ret (), ch)
           | Inr e \<Rightarrow>
               (case parseEntry e of
                  (msg, Some err) \<Rightarrow> (Ret (), ch)
                | (msg, None) \<Rightarrow>
                    if reads i then stream_loop cancelled reads (Suc i) items (ch\<lparr>ch_received := ch_received ch @ [msg]\<rparr>)
                    else (Blocked, ch)))"

definition streamLogs :: "(nat \<Rightarrow> bool) \<Rightarrow> (nat \<Rightarrow> bool) \<Rightarrow> (go_error + entry) list \<Rightarrow> (channel, unit) go" where
  "streamLogs cancelled reads items =
     go_defer (\<lambda>ch. ch\<lparr>ch_closed := True\<rparr>) (stream_loop cancelled reads 0 items)"

text \<open>What the calls on the command answer, and the two readings of the clock.\<close>

record journal_env =
  je_LookPath :: "string \<Rightarrow> go_error option"
  je_StdoutPipe :: "go_error option"
  je_StderrPipe :: "go_error option"
  je_Start :: "string list \<Rightarrow> go_error option"
  je_Now1 :: instant
  je_Now2 :: instant

text \<open>
  A query answers with the command it has started, whose output the goroutine of \<open>streamLogs\<close> then
  copies into a fresh channel.
\<close>

definition Query :: "journal_env \<Rightarrow> log_Request \<Rightarrow> go_error + string list" where
  "Query env req =
     (case je_LookPath env ''journalctl'' of
        Some err \<Rightarrow> Inl (Wrapf ''can not find journalctl: '' err)
      | None \<Rightarrow>
          (let cmd = buildCmd (je_Now1 env) (je_Now2 env) req in
           case je_StdoutPipe env of
             Some err \<Rightarrow> Inl (Wrapf ''failed to create journalctl pipe: '' err)
           | None \<Rightarrow>
               (case je_StderrPipe env of
                  Some err \<Rightarrow> Inl (Wrapf ''failed to create journalctl err pipe: '' err)
                | None \<Rightarrow>
                    (case je_Start env cmd of
                       Some err \<Rightarrow> Inl (Wrapf ''failed to create journalctl: '' err)
                     | None \<Rightarrow> Inr cmd))))"

section \<open>Decimal numbers read back\<close>

lemma digit_cases:
  fixes k :: nat
  assumes "k < 10"
  shows "k = 0 \<or> k = 1 \<or> k = 2 \<or> k = 3 \<or> k = 4 \<or> k = 5 \<or> k = 6 \<or> k = 7 \<or> k = 8 \<or> k = 9"
  using assms by (simp add: less_Suc_eq eval_nat_numeral)

lemma digit_char_digit: "is_digit (digit_char d)" "digit_value (digit_char d) = d mod 10"
proof -
  have "d mod 10 < 10" by simp
  note digit_cases[OF this]
  then have "is_digit (''0123456789'' ! (d mod 10)) \<and> digit_value (''0123456789'' ! (d mod 10)) = d mod 10"
    by (elim disjE) (simp_all add: is_digit_def digit_value_def)
  then show "is_digit (digit_char d)" "digit_value (digit_char d) = d mod 10"
    by (simp_all add: digit_char_def)
qed

lemma ParseUint_append:
  "ParseUint n (s @ [c]) =
     (case ParseUint n s of
        Inl err \<Rightarrow> Inl err
      | Inr k \<Rightarrow> if \<not> is_digit c then Inl ErrSyntax
                 else if 2 ^ 64 \<le> 10 * k + digit_value c then Inl ErrRange else Inr (10 * k + digit_value c))"
  by (induction s arbitrary: n) (auto simp: Let_def)

lemma ParseUint_itoa: "ParseUint 0 (itoa n) = (if n < 2 ^ 64 then Inr n else Inl ErrRange)"
proof (induction n rule: itoa.induct)
  case (1 n)
  show ?case
  proof (cases "n < 10")
    case True
    then show ?thesis by (simp add: itoa_lt digit_char_digit Let_def)
  next
    case False
    with 1 have IH: "ParseUint 0 (itoa (n div 10)) = (if n div 10 < 2 ^ 64 then Inr (n div 10) else Inl ErrRange)"
      by simp
    have "10 * (n div 10) + n mod 10 = n" by simp
    then show ?thesis using IH
      by (auto simp: itoa_ge[OF False] ParseUint_append digit_char_digit not_less)
  qed
qed

lemma itoa_digits: "list_all is_digit (itoa n)"
proof (induction n rule: itoa.induct)
  case (1 n)
  then show ?case by (cases "n < 10") (simp_all add: itoa_lt itoa_ge digit_char_digit)
qed

lemma not_digit: "\<not> is_digit (CHR ''+'')" "\<not> is_digit (CHR ''-'')" "\<not> is_digit (CHR '':'')"
  by (simp_all add: is_digit_def)

lemma itoa_no_sign: "hd (itoa n) \<noteq> CHR ''+''" "hd (itoa n) \<noteq> CHR ''-''"
  using itoa_digits[of n] itoa_nonempty[of n] not_digit
  by (metis hd_in_set list.pred_set)+

lemma ParseInt_itoa: "ParseInt (itoa n) = (if n < 2 ^ 63 then Inr (of_nat n) else Inl ErrRange)"
  using itoa_no_sign[of n]
  by (simp add: ParseInt_def unsigned_part_def itoa_nonempty ParseUint_itoa)

section \<open>Entries that are written for a request\<close>

lemma length_split_on: "length (split_on c xs) = Suc (count_list xs c)"
  by (induction xs) (auto split: list.splits)

text \<open>The entry that journald holds for a line that a process logs under an identifier.\<close>

definition journal_entry :: "string \<Rightarrow> string \<Rightarrow> string \<Rightarrow> nat \<Rightarrow> entry" where
  "journal_entry identifier pid line us =
     [''SYSLOG_IDENTIFIER'' \<mapsto> identifier, ''_PID'' \<mapsto> pid, ''MESSAGE'' \<mapsto> line,
      ''__REALTIME_TIMESTAMP'' \<mapsto> itoa us]"

lemma parse_journal_entry:
  assumes "CHR '':'' \<notin> set namespace" and "CHR '':'' \<notin> set name"
  shows "parseEntry (journal_entry (namespace @ '':'' @ name) pid line us) =
    (if us < 2 ^ 63
     then (\<lparr>lm_Name = name, lm_Namespace = namespace, lm_Instance = pid,
             lm_Timestamp = sint (of_nat us * 1000 :: 64 word), lm_Text = line\<rparr>, None)
     else (\<lparr>lm_Name = name, lm_Namespace = namespace, lm_Instance = pid,
             lm_Timestamp = zero_instant, lm_Text = line\<rparr>, Some (Wrapf ''invalid timestamp: '' ErrRange)))"
proof -
  have "split_on (CHR '':'') (namespace @ '':'' @ name) = [namespace, name]"
    using split_on_append[OF assms(1), of name] split_on_no_sep[OF assms(2)] by simp
  then show ?thesis
    by (simp add: parseEntry_def journal_entry_def go_lookup_def Let_def ParseInt_itoa)
qed

lemma sint_microseconds:
  assumes "us * 1000 < 2 ^ 63"
  shows "sint (of_nat us * 1000 :: 64 word) = int us * 1000"
proof -
  have "(of_nat us * 1000 :: 64 word) = of_nat (us * 1000)" by simp
  also have "sint \<dots> = int (us * 1000)"
    using assms by (simp add: signed_of_nat signed_take_bit_int_eq_self del: of_nat_mult)
  finally show ?thesis by simp
qed

text \<open>
  C32: a journal entry that carries the identifier which the command asks for is parsed to the name and
  the namespace of the request, the line, and the instant of the entry, to the nanosecond; unless the
  name or the namespace holds a colon, and then it is refused.
\<close>

theorem requested_entry_roundtrip:
  assumes "us * 1000 < 2 ^ 63"
  shows "if CHR '':'' \<notin> set (log_namespace req) \<and> CHR '':'' \<notin> set (lr_Name req)
    then parseEntry (journal_entry (log_identifier req) pid line us) =
        (\<lparr>lm_Name = lr_Name req, lm_Namespace = log_namespace req, lm_Instance = pid,
          lm_Timestamp = int us * 1000, lm_Text = line\<rparr>, None)
    else snd (parseEntry (journal_entry (log_identifier req) pid line us)) =
        Some (Errorf ''invalid SYSLOG_IDENTIFIER'')"
proof (cases "CHR '':'' \<notin> set (log_namespace req) \<and> CHR '':'' \<notin> set (lr_Name req)")
  case True
  have "us < 2 ^ 63" using assms by simp
  with True show ?thesis
    using parse_journal_entry[of "log_namespace req" "lr_Name req" pid line us] sint_microseconds[OF assms]
    by (simp add: log_identifier_def)
next
  case False
  then have "count_list (log_namespace req @ '':'' @ lr_Name req) (CHR '':'') \<noteq> 1"
    by (auto simp: count_list_0_iff)
  then have "length (split_on (CHR '':'') (log_identifier req)) \<noteq> 2"
    by (simp add: length_split_on log_identifier_def)
  then have "snd (parseEntry (journal_entry (log_identifier req) pid line us)) =
        Some (Errorf ''invalid SYSLOG_IDENTIFIER'')"
    by (auto simp: parseEntry_def journal_entry_def go_lookup_def Let_def split: list.splits)
  then show ?thesis unfolding if_not_P[OF False] .
qed

definition sample_log_request :: log_Request where
  "sample_log_request = \<lparr>lr_Name = ''fn'', lr_Namespace = '''', lr_Instance = '''', lr_Since = Some 0,
     lr_Tail = 10, lr_Follow = False\<rparr>"

theorem requested_entry_roundtrip_witness:
  "parseEntry (journal_entry ''openfaas-fn:fn'' ''77'' ''hello'' 1700000000000000) =
    (\<lparr>lm_Name = ''fn'', lm_Namespace = ''openfaas-fn'', lm_Instance = ''77'',
      lm_Timestamp = 1700000000000000000, lm_Text = ''hello''\<rparr>, None)"
  using requested_entry_roundtrip[of 1700000000000000 sample_log_request "''77''" "''hello''"]
  by (simp add: sample_log_request_def log_identifier_def log_namespace_def DefaultFunctionNamespace_def)

lemma sint_times_1000:
  "sint (of_nat us * 1000 :: 64 word) = (int us * 1000 + 2 ^ 63) mod 2 ^ 64 - 2 ^ 63"
proof -
  have "(of_nat us * 1000 :: 64 word) = of_nat (us * 1000)" by simp
  then have "sint (of_nat us * 1000 :: 64 word) = signed_take_bit 63 (int us * 1000)"
    by (simp add: signed_of_nat del: of_nat_mult) simp
  also have "\<dots> = (int us * 1000 + 2 ^ 63) mod 2 ^ 64 - 2 ^ 63"
    by (simp add: signed_take_bit_eq_take_bit_shift take_bit_eq_mod)
  finally show ?thesis .
qed

text \<open>
  C33: the instant of a parsed entry is the number of microseconds times a thousand, wrapped to a signed
  64-bit integer. It is right up to 9223372036854775 microseconds, in the year 2262, and wrong for
  every larger number that is still accepted.
\<close>

theorem timestamp_bounds:
  assumes "CHR '':'' \<notin> set namespace" and "CHR '':'' \<notin> set name" and "us < 2 ^ 63"
    and parsed: "parseEntry (journal_entry (namespace @ '':'' @ name) pid line us) = (msg, err)"
  shows "err = None \<and> lm_Timestamp msg = (int us * 1000 + 2 ^ 63) mod 2 ^ 64 - 2 ^ 63 \<and>
    (lm_Timestamp msg = int us * 1000 \<longleftrightarrow> us \<le> 9223372036854775)"
proof -
  have ts: "err = None" "lm_Timestamp msg = (int us * 1000 + 2 ^ 63) mod 2 ^ 64 - 2 ^ 63"
    using parsed assms(3) parse_journal_entry[OF assms(1,2), of pid line us] by (auto simp: sint_times_1000)
  moreover have "(int us * 1000 + 2 ^ 63) mod 2 ^ 64 - 2 ^ 63 = int us * 1000 \<longleftrightarrow> us \<le> 9223372036854775"
  proof
    assume "us \<le> 9223372036854775"
    then have "int us * 1000 + 2 ^ 63 < 2 ^ 64" by simp
    then show "(int us * 1000 + 2 ^ 63) mod 2 ^ 64 - 2 ^ 63 = int us * 1000" by simp
  next
    assume "(int us * 1000 + 2 ^ 63) mod 2 ^ 64 - 2 ^ 63 = int us * 1000"
    moreover have "(int us * 1000 + 2 ^ 63) mod 2 ^ 64 < 2 ^ 64" by simp
    ultimately have "int us * 1000 + 2 ^ 63 < 2 ^ 64" by linarith
    then show "us \<le> 9223372036854775" by simp
  qed
  ultimately show ?thesis by simp
qed

theorem timestamp_bounds_witness:
  "\<exists>msg. parseEntry (journal_entry ''openfaas-fn:fn'' ''77'' ''hello'' 9223372036854776) = (msg, None) \<and>
    lm_Timestamp msg = - 9223372036854775616"
proof -
  obtain msg err where parsed:
    "parseEntry (journal_entry (''openfaas-fn'' @ '':'' @ ''fn'') ''77'' ''hello'' 9223372036854776) = (msg, err)"
    by (meson surj_pair)
  have "CHR '':'' \<notin> set ''openfaas-fn''" "CHR '':'' \<notin> set ''fn''" "(9223372036854776::nat) < 2 ^ 63" by simp_all
  from timestamp_bounds[OF this parsed] parsed show ?thesis by simp
qed

section \<open>The stream and its reference\<close>

definition entry_ok :: "go_error + entry \<Rightarrow> bool" where
  "entry_ok item = (case item of Inl err \<Rightarrow> False | Inr e \<Rightarrow> snd (parseEntry e) = None)"

definition entry_message :: "go_error + entry \<Rightarrow> log_Message" where
  "entry_message item = (case item of Inl err \<Rightarrow> fst (parseEntry Map.empty) | Inr e \<Rightarrow> fst (parseEntry e))"

text \<open>The entries a stream gets to: those before the first bad one, of the first \<open>k\<close>.\<close>

definition good_prefix :: "nat \<Rightarrow> (go_error + entry) list \<Rightarrow> (go_error + entry) list" where
  "good_prefix k items = takeWhile entry_ok (take k items)"

lemma stream_loop_reference:
  assumes "\<forall>j. cancelled j \<longleftrightarrow> k \<le> j" and "\<forall>j. reads j \<longleftrightarrow> j < r"
  shows "stream_loop cancelled reads i items ch =
    (let good = good_prefix (k - i) items in
     (if length good \<le> r - i then Ret () else Blocked,
      ch\<lparr>ch_received := ch_received ch @ map entry_message (take (r - i) good)\<rparr>))"
proof (induction items arbitrary: i ch)
  case Nil
  then show ?case by (simp add: good_prefix_def)
next
  case (Cons item items)
  show ?case
  proof (cases "i < k \<and> entry_ok item")
    case False
    then show ?thesis using assms
      by (auto simp: good_prefix_def entry_ok_def take_Cons' split: sum.splits option.splits prod.splits)
  next
    case True
    then obtain e msg where item: "item = Inr e" "parseEntry e = (msg, None)"
      by (auto simp: entry_ok_def split: sum.splits) (metis prod.collapse)
    obtain d where d: "k - i = Suc d" "k - Suc i = d" using True by (metis Suc_diff_Suc)
    have good: "good_prefix (k - i) (item # items) = item # good_prefix (k - Suc i) items"
      using True by (simp add: good_prefix_def d)
    show ?thesis
    proof (cases "i < r")
      case False
      then show ?thesis using True item assms unfolding good by (simp add: Let_def)
    next
      case readable: True
      obtain q where q: "r - i = Suc q" "r - Suc i = q" using readable by (metis Suc_diff_Suc)
      show ?thesis using True readable item assms Cons.IH[of "Suc i"] unfolding good q
        by (simp add: Let_def q entry_message_def)
    qed
  qed
qed

text \<open>
  C34: the stream is the reference one. When the context is done from round \<open>k\<close> on and the reader takes
  \<open>r\<close> messages, the reader gets the messages of the entries before the first one that does not decode
  or parse, of the first \<open>k\<close>, and not more than \<open>r\<close>; the channel is closed when these are all of them,
  and otherwise the goroutine waits for ever and the channel stays open.
\<close>

theorem stream_is_reference:
  assumes "\<forall>j. cancelled j \<longleftrightarrow> k \<le> j" and "\<forall>j. reads j \<longleftrightarrow> j < r"
  shows "streamLogs cancelled reads items \<lparr>ch_received = [], ch_closed = False\<rparr> =
    (let good = takeWhile entry_ok (take k items) in
     (if length good \<le> r then Ret () else Blocked,
      \<lparr>ch_received = map entry_message (take r good), ch_closed = (length good \<le> r)\<rparr>))"
  using stream_loop_reference[OF assms, of 0 items "\<lparr>ch_received = [], ch_closed = False\<rparr>"]
  by (simp add: streamLogs_def go_defer_def good_prefix_def Let_def)

theorem stream_is_reference_witness:
  "streamLogs (\<lambda>j. 3 \<le> j) (\<lambda>j. j < 1)
      [Inr (journal_entry ''openfaas-fn:a'' ''7'' ''x'' 5), Inl (LibError ''unexpected EOF''),
       Inr (journal_entry ''openfaas-fn:a'' ''7'' ''y'' 6)] \<lparr>ch_received = [], ch_closed = False\<rparr> =
    (Ret (), \<lparr>ch_received = [\<lparr>lm_Name = ''a'', lm_Namespace = ''openfaas-fn'', lm_Instance = ''7'',
        lm_Timestamp = 5000, lm_Text = ''x''\<rparr>], ch_closed = True\<rparr>)"
proof -
  have e: "parseEntry (journal_entry ''openfaas-fn:a'' ''7'' ''x'' 5) =
      (\<lparr>lm_Name = ''a'', lm_Namespace = ''openfaas-fn'', lm_Instance = ''7'', lm_Timestamp = 5000, lm_Text = ''x''\<rparr>, None)"
    using parse_journal_entry[of "''openfaas-fn''" "''a''" "''7''" "''x''" 5] sint_microseconds[of 5] by simp
  show ?thesis
    using stream_is_reference[of "\<lambda>j. 3 \<le> j" 3 "\<lambda>j. j < 1" 1
      "[Inr (journal_entry ''openfaas-fn:a'' ''7'' ''x'' 5), Inl (LibError ''unexpected EOF''),
       Inr (journal_entry ''openfaas-fn:a'' ''7'' ''y'' 6)]"]
    by (simp add: entry_ok_def entry_message_def e)
qed

section \<open>The start of the interval, read back\<close>

text \<open>
  The calendar is inverted field by field: within an era of 400 years the number of the year is below
  400 and the day of the year is one of 366.
\<close>

lemma year_of_century:
  fixes c r t q :: int
  assumes c: "0 \<le> c" "c \<le> 3" and r: "0 \<le> r" "r < 36524"
    and q: "1460 * q \<le> 24 * c + r" "24 * c + r < 1460 * q + 1460"
    and t: "365 * t \<le> r - q" "r - q < 365 * t + 365"
  shows "0 \<le> t" and "t \<le> 99" and "0 \<le> r - 365 * t - t div 4" and "r - 365 * t - t div 4 \<le> 365"
proof -
  define s where "s = t div 4"
  have s: "4 * s \<le> t" "t \<le> 4 * s + 3" unfolding s_def by linarith+
  have "0 \<le> q" "q \<le> 25" using c r q by linarith+
  show "0 \<le> t" using \<open>0 \<le> q\<close> q t c r by linarith
  show "t \<le> 99" using q t c r by linarith
  have "s \<le> q" using q t s c \<open>0 \<le> q\<close> by linarith
  then show "0 \<le> r - 365 * t - t div 4" using t unfolding s_def by linarith
  have "q \<le> s + 1" using q t s c \<open>t \<le> 99\<close> by linarith
  then show "r - 365 * t - t div 4 \<le> 365" using t unfolding s_def by linarith
qed

lemma year_of_era:
  fixes doe :: int
  assumes "0 \<le> doe" and "doe < 146097"
  defines "yoe \<equiv> (doe - doe div 1460 + doe div 36524 - doe div 146096) div 365"
  shows "0 \<le> yoe \<and> yoe < 400 \<and> 0 \<le> doe - (365 * yoe + yoe div 4 - yoe div 100) \<and>
    doe - (365 * yoe + yoe div 4 - yoe div 100) \<le> 365"
proof (cases "doe = 146096")
  case True
  then have "yoe = 399" by (simp add: yoe_def)
  with True show ?thesis by simp
next
  case False
  define c where "c = doe div 36524"
  define r where "r = doe mod 36524"
  define q where "q = (24 * c + r) div 1460"
  define t where "t = (r - q) div 365"
  have doe: "doe = 36524 * c + r" by (simp add: c_def r_def)
  have r: "0 \<le> r" "r < 36524" by (simp_all add: r_def)
  have c: "0 \<le> c" "c \<le> 3" using assms(1,2) False doe r by linarith+
  have "doe div 1460 = 25 * c + q"
  proof -
    have "doe = 1460 * (25 * c) + (24 * c + r)" using doe by simp
    then show ?thesis unfolding q_def by (metis add.commute div_mult_self2 zero_neq_numeral)
  qed
  moreover have "doe div 146096 = 0" using assms(1,2) False by simp
  ultimately have "yoe = (36500 * c + (r - q)) div 365" unfolding yoe_def c_def[symmetric] by (simp add: doe)
  also have "\<dots> = 100 * c + t"
  proof -
    have "36500 * c + (r - q) = 365 * (100 * c) + (r - q)" by simp
    then show ?thesis unfolding t_def by (metis add.commute div_mult_self2 zero_neq_numeral)
  qed
  finally have yoe: "yoe = 100 * c + t" .
  have q: "1460 * q \<le> 24 * c + r" "24 * c + r < 1460 * q + 1460" unfolding q_def by linarith+
  have t: "365 * t \<le> r - q" "r - q < 365 * t + 365" unfolding t_def by linarith+
  note bounds = year_of_century[OF c r q t]
  have "yoe div 4 = 25 * c + t div 4" "yoe div 100 = c" using bounds(1,2) unfolding yoe by linarith+
  then show ?thesis using bounds c doe yoe by linarith
qed

definition days_of_date :: "int \<Rightarrow> int \<Rightarrow> int \<Rightarrow> int" where
  "days_of_date y m d =
     (let y' = (if m \<le> 2 then y - 1 else y); era = y' div 400; yoe = y' mod 400;
          mp = (if m > 2 then m - 3 else m + 9); doy = (153 * mp + 2) div 5 + d - 1
      in era * 146097 + (365 * yoe + yoe div 4 - yoe div 100 + doy) - 719468)"

lemma days_of_civil_date:
  assumes "civil_date days = (y, m, d)"
  shows "days_of_date y m d = days \<and> 1 \<le> m \<and> m \<le> 12 \<and> 1 \<le> d \<and> d \<le> 31"
proof -
  define era where "era = (days + 719468) div 146097"
  define doe where "doe = (days + 719468) mod 146097"
  define yoe where "yoe = (doe - doe div 1460 + doe div 36524 - doe div 146096) div 365"
  define doy where "doy = doe - (365 * yoe + yoe div 4 - yoe div 100)"
  define mp where "mp = (5 * doy + 2) div 153"
  define w where "w = (153 * mp + 2) div 5"
  have doe: "0 \<le> doe" "doe < 146097" by (simp_all add: doe_def)
  have days: "days + 719468 = era * 146097 + doe" by (simp add: era_def doe_def)
  have yoe: "0 \<le> yoe" "yoe < 400" "0 \<le> doy" "doy \<le> 365"
    using year_of_era[OF doe] unfolding yoe_def[symmetric] doy_def by simp_all
  have mp: "153 * mp \<le> 5 * doy + 2" "5 * doy + 2 < 153 * mp + 153" unfolding mp_def by linarith+
  then have mp_range: "0 \<le> mp" "mp \<le> 11" using yoe(3,4) by linarith+
  have w: "5 * w \<le> 153 * mp + 2" "153 * mp + 2 < 5 * w + 5" unfolding w_def by linarith+
  have date: "m = (if mp < 10 then mp + 3 else mp - 9)" "d = doy - w + 1"
    "y = (if m \<le> 2 then yoe + era * 400 + 1 else yoe + era * 400)"
    using assms unfolding civil_date_def Let_def era_def[symmetric] doe_def[symmetric] yoe_def[symmetric]
      doy_def[symmetric] mp_def[symmetric] w_def[symmetric] by auto
  have m: "1 \<le> m" "m \<le> 12" "(if m > 2 then m - 3 else m + 9) = mp" using date(1) mp_range by auto
  have y: "(if m \<le> 2 then y - 1 else y) = yoe + era * 400" using date(3) by simp
  have "(yoe + era * 400) div 400 = era" "(yoe + era * 400) mod 400 = yoe" using yoe(1,2) by simp_all
  then have "days_of_date y m d = days"
    unfolding days_of_date_def Let_def y m(3) w_def[symmetric] using days date(2) by (simp add: doy_def)
  moreover have "1 \<le> d" "d \<le> 31" using date(2) w mp by linarith+
  ultimately show ?thesis using m(1,2) by simp
qed

lemma length_itoa: "n < 10 ^ w \<Longrightarrow> 0 < w \<Longrightarrow> length (itoa n) \<le> w"
proof (induction n arbitrary: w rule: itoa.induct)
  case (1 n)
  show ?case
  proof (cases "n < 10")
    case False
    with 1(2,3) obtain v where v: "w = Suc v" "0 < v" by (cases w; cases "w - 1") auto
    with 1(2) have "n div 10 < 10 ^ v" by (simp add: less_mult_imp_div_less mult.commute)
    with 1(1)[OF False, of v] v show ?thesis by (simp add: itoa_ge[OF False])
  qed (use 1(3) in \<open>simp add: itoa_lt\<close>)
qed

lemma ParseUint_zeros: "ParseUint 0 (replicate k (CHR ''0'') @ s) = ParseUint 0 s"
  by (induction k) (simp_all add: is_digit_def digit_value_def Let_def)

lemma pad_int_fields:
  assumes "0 \<le> i" and "i < 10 ^ w" and "0 < w" and "w < 5"
  shows "length (pad_int w i) = w" and "ParseUint 0 (pad_int w i) = Inr (nat i)"
proof -
  have n: "nat i < 10 ^ w" using assms(1,2) by (simp add: nat_less_iff)
  then show "length (pad_int w i) = w" using assms(1) length_itoa[OF n assms(3)] by (simp add: pad_int_def pad_nat_def)
  have "(10::nat) ^ w \<le> 10 ^ 4" using assms(4) by (intro power_increasing) auto
  then have "nat i < 10 ^ 4" using n by (rule less_le_trans[rotated])
  then have "nat i < 2 ^ 64" by simp
  then show "ParseUint 0 (pad_int w i) = Inr (nat i)" using assms(1)
    by (simp add: pad_int_def pad_nat_def ParseUint_zeros ParseUint_itoa)
qed

text \<open>
  How a date and a time of day are read where the clock is \<open>zone\<close> seconds ahead of UTC: as seconds
  since the Unix epoch.
\<close>

definition read_stamp :: "int \<Rightarrow> string \<Rightarrow> int option" where
  "read_stamp zone s =
     (case map (\<lambda>(a, n). ParseUint 0 (take n (drop a s))) [(0, 4), (5, 2), (8, 2), (11, 2), (14, 2), (17, 2)] of
        [Inr y, Inr mo, Inr d, Inr h, Inr mi, Inr sec] \<Rightarrow>
          Some (days_of_date (int y) (int mo) (int d) * 86400 + int h * 3600 + int mi * 60 + int sec - zone)
      | _ \<Rightarrow> None)"

lemma read_stamp_fields:
  assumes "length y = 4" "length mo = 2" "length d = 2" "length h = 2" "length mi = 2" "length sec = 2"
    and "ParseUint 0 y = Inr y'" "ParseUint 0 mo = Inr mo'" "ParseUint 0 d = Inr d'" "ParseUint 0 h = Inr h'"
      "ParseUint 0 mi = Inr mi'" "ParseUint 0 sec = Inr sec'"
  shows "read_stamp zone (y @ ''-'' @ mo @ ''-'' @ d @ '' '' @ h @ '':'' @ mi @ '':'' @ sec) =
    Some (days_of_date (int y') (int mo') (int d') * 86400 + int h' * 3600 + int mi' * 60 + int sec' - zone)"
  using assms by (simp add: read_stamp_def)

lemma read_stamp_numbers:
  assumes "0 \<le> y" "y < 10 ^ 4" "0 \<le> mo" "mo < 10 ^ 2" "0 \<le> d" "d < 10 ^ 2" "0 \<le> h" "h < 10 ^ 2"
    "0 \<le> mi" "mi < 10 ^ 2" "0 \<le> sec" "sec < 10 ^ 2"
  shows "read_stamp zone (pad_int 4 y @ ''-'' @ pad_int 2 mo @ ''-'' @ pad_int 2 d @ '' '' @ pad_int 2 h @
      '':'' @ pad_int 2 mi @ '':'' @ pad_int 2 sec) =
    Some (days_of_date y mo d * 86400 + h * 3600 + mi * 60 + sec - zone)"
proof -
  have "read_stamp zone (pad_int 4 y @ ''-'' @ pad_int 2 mo @ ''-'' @ pad_int 2 d @ '' '' @ pad_int 2 h @
      '':'' @ pad_int 2 mi @ '':'' @ pad_int 2 sec) =
    Some (days_of_date (int (nat y)) (int (nat mo)) (int (nat d)) * 86400 + int (nat h) * 3600 +
      int (nat mi) * 60 + int (nat sec) - zone)"
    by (rule read_stamp_fields; rule pad_int_fields) (use assms in simp_all)
  then show ?thesis using assms by simp
qed

text \<open>
  C35: the start of the interval in the command, read back, is the instant asked for cut to the second
  (five minutes before the first reading of the clock when none in the past is asked for), less the
  offset of the zone it is read in: the text carries no zone, so it denotes the instant only where it
  is read in UTC.
\<close>

theorem since_roundtrip:
  assumes year: "civil_date (log_since now1 now2 req div Second div 86400) = (y, m, d)" "0 \<le> y" "y < 10000"
  shows "\<exists>stamp. ''--since='' @ stamp = buildCmd now1 now2 req ! 5 \<and>
    read_stamp zone stamp = Some (log_since now1 now2 req div Second - zone) \<and>
    log_since now1 now2 req =
      (if \<exists>t. lr_Since req = Some t \<and> t < now2 then the (lr_Since req) else now1 - 300 * Second)"
proof -
  let ?t = "log_since now1 now2 req"
  define secs where "secs = ?t div Second"
  define sod where "sod = secs mod 86400"
  note date = days_of_civil_date[OF year(1), folded secs_def]
  have sod: "0 \<le> sod" "sod < 86400" by (simp_all add: sod_def)
  have h: "0 \<le> sod div 3600" "sod div 3600 < 10 ^ 2" using sod by (simp_all add: div_less_iff_less_mult pos_imp_zdiv_nonneg_iff)
  have "sod mod 3600 < 3600" by simp
  then have mi: "0 \<le> sod mod 3600 div 60" "sod mod 3600 div 60 < 10 ^ 2" by (simp_all add: div_less_iff_less_mult pos_imp_zdiv_nonneg_iff)
  have "sod mod 60 < 60" by simp
  then have s: "0 \<le> sod mod 60" "sod mod 60 < 10 ^ 2" by simp_all
  have total: "days_of_date y m d * 86400 + sod div 3600 * 3600 + sod mod 3600 div 60 * 60 + sod mod 60 = secs"
  proof -
    have "days_of_date y m d * 86400 + sod = secs" using date by (simp add: sod_def)
    moreover have "sod mod 3600 mod 60 = sod mod 60" by (rule mod_mod_cancel) simp
    moreover have "sod mod 3600 div 60 * 60 + sod mod 3600 mod 60 = sod mod 3600" by (rule div_mult_mod_eq)
    moreover have "sod div 3600 * 3600 + sod mod 3600 = sod" by (rule div_mult_mod_eq)
    ultimately show ?thesis by linarith
  qed
  have "Format ?t = pad_int 4 y @ ''-'' @ pad_int 2 m @ ''-'' @ pad_int 2 d @ '' '' @ pad_int 2 (sod div 3600) @
      '':'' @ pad_int 2 (sod mod 3600 div 60) @ '':'' @ pad_int 2 (sod mod 60)"
    using year(1) by (simp add: Format_def Let_def secs_def sod_def)
  moreover have "y < 10 ^ 4" "0 \<le> m" "m < 10 ^ 2" "0 \<le> d" "d < 10 ^ 2" using year(3) date by simp_all
  note read_stamp_numbers[OF year(2) this h mi s, of zone, unfolded total]
  ultimately have "read_stamp zone (Format ?t) = Some (?t div Second - zone)" by (simp only: secs_def)
  moreover have "?t = (if \<exists>t. lr_Since req = Some t \<and> t < now2 then the (lr_Since req) else now1 - 300 * Second)"
    by (cases "lr_Since req") (simp_all add: log_since_def Minute_def)
  ultimately show ?thesis by (intro exI[of _ "Format ?t"]) (simp add: buildCmd_def)
qed

text \<open>The computation of a date, one step after the other.\<close>

lemma civil_date_steps:
  assumes "days + 719468 = z" "z div 146097 = era" "z mod 146097 = doe"
    and "(doe - doe div 1460 + doe div 36524 - doe div 146096) div 365 = yoe"
    and "doe - (365 * yoe + yoe div 4 - yoe div 100) = doy" and "(5 * doy + 2) div 153 = mp"
    and "doy - (153 * mp + 2) div 5 + 1 = d" and "(if mp < 10 then mp + 3 else mp - 9) = m"
    and "(if m \<le> 2 then yoe + era * 400 + 1 else yoe + era * 400) = y"
  shows "civil_date days = (y, m, d)"
  unfolding civil_date_def Let_def assms by (rule refl)

theorem since_roundtrip_witness:
  "\<exists>stamp. ''--since='' @ stamp = buildCmd 0 1 (sample_log_request\<lparr>lr_Since := Some (-1)\<rparr>) ! 5 \<and>
    read_stamp 3600 stamp = Some (- 3601)"
proof -
  have "log_since 0 1 (sample_log_request\<lparr>lr_Since := Some (-1)\<rparr>) div Second div 86400 = - 1"
    by (simp add: log_since_def sample_log_request_def Second_def)
  moreover have "civil_date (- 1) = (1969, 12, 31)"
    by (rule civil_date_steps[where z = 719467 and era = 4 and doe = 135079 and yoe = 369 and doy = 305 and mp = 9]) simp_all
  ultimately have "civil_date (log_since 0 1 (sample_log_request\<lparr>lr_Since := Some (-1)\<rparr>) div Second div 86400) = (1969, 12, 31)"
    by simp
  from since_roundtrip[OF this, of 3600] show ?thesis
    by (simp add: log_since_def sample_log_request_def Second_def)
qed

end
