(* ===== verification/Install.thy ===== *)
theory Install
  imports GoPath
begin

text \<open>
  The commands \<open>version\<close> and \<open>install\<close> of \<open>cmd\<close>: the version texts, \<open>main\<close>, and the installation, over
  the files and directories of the host and the calls made to systemd. What the host answers is an
  argument, so that every call may fail.
\<close>

section \<open>Version and main\<close>

definition GetVersion :: "string \<Rightarrow> string" where
  "GetVersion Version = (if length Version = 0 then ''dirty'' else Version)"

definition GetGitCommit :: "string \<Rightarrow> string" where
  "GetGitCommit GitCommit = (if length GitCommit = 0 then ''dev'' else GitCommit)"

definition printVersion :: "string \<Rightarrow> string \<Rightarrow> string" where
  "printVersion Version GitCommit =
     ''uk-faas version: '' @ GetVersion Version @ [CHR 0x09] @ ''commit: '' @ GetGitCommit GitCommit @ [CHR 0x0A]"

text \<open>
  The subcommands that the \<open>init\<close> functions add to the root command, and what \<open>main\<close> does with the
  result of executing it on its arguments: the exit code and what is printed on the error output.
\<close>

definition subcommands :: "string list" where
  "subcommands = [''version'', ''install'', ''up'', ''provider'', ''test'']"

definition main ::
  "(string list \<Rightarrow> string list \<Rightarrow> go_error option) \<Rightarrow> string option \<Rightarrow> string list \<Rightarrow> nat \<times> string" where
  "main execute container_id os_args =
     (case container_id of
        Some v \<Rightarrow>
          (case execute subcommands [''collect''] of
             Some err \<Rightarrow> (1, Error err)
           | None \<Rightarrow> (0, ''''))
      | None \<Rightarrow>
          (case execute subcommands os_args of
             Some err \<Rightarrow> (1, '''')
           | None \<Rightarrow> (0, '''')))"

section \<open>The host\<close>

datatype systemd_call = InstallUnit string "string \<rightharpoonup> string" | DaemonReload | EnableUnit string | StartUnit string

record host =
  host_files :: "string \<rightharpoonup> string"
  host_dirs :: "string set"
  systemd_calls :: "systemd_call list"

text \<open>
  The answers of the host: an error of \<open>os.Stat\<close> other than absence, of \<open>os.MkdirAll\<close>, of opening a file
  for reading and of creating one; an error while the bytes are written, with the number that were
  written before it; the answers of systemd; and a generated password.
\<close>

record host_env =
  he_Stat :: "string \<Rightarrow> go_error option"
  he_MkdirAll :: "string \<Rightarrow> go_error option"
  he_Open :: "string \<Rightarrow> go_error option"
  he_Create :: "string \<Rightarrow> go_error option"
  he_Write :: "string \<Rightarrow> (go_error \<times> nat) option"
  he_systemd :: "systemd_call \<Rightarrow> go_error option"
  he_Generate :: "go_error + string"

datatype stat_result = Present | NotExist | StatFailed go_error

definition host_Stat :: "host_env \<Rightarrow> string \<Rightarrow> host \<Rightarrow> stat_result" where
  "host_Stat env p h =
     (case he_Stat env p of
        Some err \<Rightarrow> StatFailed err
      | None \<Rightarrow> if host_files h p \<noteq> None \<or> p \<in> host_dirs h then Present else NotExist)"

definition host_MkdirAll :: "host_env \<Rightarrow> string \<Rightarrow> (host, go_error option) go" where
  "host_MkdirAll env p h =
     (case he_MkdirAll env p of
        Some err \<Rightarrow> (Ret (Some err), h)
      | None \<Rightarrow> (Ret None, h\<lparr>host_dirs := insert p (host_dirs h)\<rparr>))"

text \<open>Creating a file cuts it to no bytes; an error while writing leaves those written before it.\<close>

definition host_write :: "host_env \<Rightarrow> string \<Rightarrow> string \<Rightarrow> (host, go_error option) go" where
  "host_write env p contents h =
     (case he_Create env p of
        Some err \<Rightarrow> (Ret (Some err), h)
      | None \<Rightarrow>
          (case he_Write env p of
             Some (err, n) \<Rightarrow> (Ret (Some err), h\<lparr>host_files := (host_files h)(p \<mapsto> take n contents)\<rparr>)
           | None \<Rightarrow> (Ret None, h\<lparr>host_files := (host_files h)(p \<mapsto> contents)\<rparr>)))"

definition systemd :: "host_env \<Rightarrow> systemd_call \<Rightarrow> (host, go_error option) go" where
  "systemd env call h = (Ret (he_systemd env call), h\<lparr>systemd_calls := systemd_calls h @ [call]\<rparr>)"

section \<open>Installing\<close>

definition ukfaaswd :: string where "ukfaaswd = ''/var/lib/ukfaasd''"
definition ukfaasProviderWd :: string where "ukfaasProviderWd = ''/var/lib/ukfaasd-provider''"

text \<open>Any error of \<open>os.Stat\<close> makes the directory be created.\<close>

definition ensureWorkingDir :: "host_env \<Rightarrow> string \<Rightarrow> (host, go_error option) go" where
  "ensureWorkingDir env folder h =
     (case host_Stat env folder h of
        Present \<Rightarrow> (Ret None, h)
      | _ \<Rightarrow> host_MkdirAll env folder h)"

definition ensureSecretsDir :: "host_env \<Rightarrow> string \<Rightarrow> (host, go_error option) go" where
  "ensureSecretsDir env folder h =
     (case host_Stat env folder h of
        Present \<Rightarrow> (Ret None, h)
      | _ \<Rightarrow> host_MkdirAll env folder h)"

definition binExists :: "host_env \<Rightarrow> string \<Rightarrow> string \<Rightarrow> (host, go_error option) go" where
  "binExists env folder name h =
     (let findPath = path_Join [folder, name] in
      case host_Stat env findPath h of
        Present \<Rightarrow> (Ret None, h)
      | _ \<Rightarrow> (Ret (Some (Errorf (''unable to stat '' @ findPath @ '', install this binary before continuing''))), h))"

text \<open>\<open>ErrNotExist\<close> is the error of opening a file that is not there.\<close>

definition ErrNotExist :: go_error where "ErrNotExist = LibError ''file does not exist''"

definition cp :: "host_env \<Rightarrow> string \<Rightarrow> string \<Rightarrow> (host, go_error option) go" where
  "cp env source destFolder h =
     (case he_Open env source of
        Some err \<Rightarrow> (Ret (Some err), h)
      | None \<Rightarrow>
          (case host_files h source of
             None \<Rightarrow> (Ret (Some ErrNotExist), h)
           | Some contents \<Rightarrow> host_write env (path_Join [destFolder, source]) contents h))"

definition makeFile :: "host_env \<Rightarrow> string \<Rightarrow> string \<Rightarrow> (host, go_error option) go" where
  "makeFile env filePath fileContents h =
     (case host_Stat env filePath h of
        Present \<Rightarrow> (Ret None, h)
      | NotExist \<Rightarrow> host_write env filePath fileContents h
      | StatFailed err \<Rightarrow> (Ret (Some err), h))"

text \<open>Calls in a row, each made when the one before it returned no error.\<close>

fun until_error :: "('s, go_error option) go list \<Rightarrow> ('s, go_error option) go" where
  "until_error [] = go_return None"
| "until_error (step # steps) =
     go_bind step (\<lambda>err. case err of Some e \<Rightarrow> go_return (Some e) | None \<Rightarrow> until_error steps)"

definition makeBasicAuthFiles :: "host_env \<Rightarrow> string \<Rightarrow> (host, go_error option) go" where
  "makeBasicAuthFiles env wd =
     (case he_Generate env of
        Inl err \<Rightarrow> go_return (Some err)
      | Inr authPassword \<Rightarrow>
          until_error
            [makeFile env (path_Join [wd, ''basic-auth-password'']) authPassword,
             makeFile env (path_Join [wd, ''basic-auth-user'']) ''admin''])"

definition wrap_error :: "string \<Rightarrow> ('s, go_error option) go \<Rightarrow> ('s, go_error option) go" where
  "wrap_error msg call = go_bind call (\<lambda>err. go_return (map_option (Wrapf (msg @ '': '')) err))"

definition provider_tokens :: "string \<rightharpoonup> string" where
  "provider_tokens = [''Cwd'' \<mapsto> ukfaasProviderWd, ''SecretMountPath'' \<mapsto> path_Join [ukfaaswd, ''secrets'']]"

definition prepare_steps :: "host_env \<Rightarrow> (host, go_error option) go list" where
  "prepare_steps env =
     [ensureWorkingDir env (path_Join [ukfaaswd, ''secrets'']),
      ensureWorkingDir env ukfaasProviderWd,
      wrap_error ''cannot create basic-auth-* files'' (makeBasicAuthFiles env (path_Join [ukfaaswd, ''secrets''])),
      cp env ''docker-compose.yaml'' ukfaaswd,
      cp env ''prometheus.yml'' ukfaaswd,
      cp env ''resolv.conf'' ukfaaswd,
      binExists env ''/usr/local/bin/'' ''ukfaasd'']"

definition install_calls :: "systemd_call list" where
  "install_calls =
     [InstallUnit ''ukfaasd-provider'' provider_tokens,
      InstallUnit ''ukfaasd'' [''Cwd'' \<mapsto> ukfaaswd],
      DaemonReload,
      EnableUnit ''ukfaasd-provider'',
      EnableUnit ''ukfaasd'',
      StartUnit ''ukfaasd-provider'',
      StartUnit ''ukfaasd'']"

definition runInstall :: "host_env \<Rightarrow> (host, go_error option) go" where
  "runInstall env = until_error (prepare_steps env @ map (systemd env) install_calls)"

section \<open>Steps in a row\<close>

lemma until_error_append:
  "until_error (xs @ ys) =
     go_bind (until_error xs) (\<lambda>err. case err of Some e \<Rightarrow> go_return (Some e) | None \<Rightarrow> until_error ys)"
proof (induction xs)
  case (Cons x xs)
  then show ?case
    by (auto simp: go_bind_def go_return_def fun_eq_iff split: prod.splits outcome.splits option.splits)
qed (simp add: go_bind_def go_return_def)

lemma until_error_None: "step s = (Ret None, s') \<Longrightarrow> until_error (step # steps) s = until_error steps s'"
  by simp

lemma until_error_Some: "step s = (Ret (Some e), s') \<Longrightarrow> until_error (step # steps) s = (Ret (Some e), s')"
  by (simp add: go_return_def)

text \<open>A property of the state that every step keeps, whatever it returns.\<close>

definition step_keeps :: "('s \<Rightarrow> bool) \<Rightarrow> ('s, go_error option) go \<Rightarrow> bool" where
  "step_keeps P step \<longleftrightarrow> (\<forall>s. P s \<longrightarrow> (\<exists>err s'. step s = (Ret err, s') \<and> P s'))"

lemma step_keepsE:
  assumes "step_keeps P step" and "P s"
  obtains err s' where "step s = (Ret err, s')" and "P s'"
  using assms unfolding step_keeps_def by blast

lemma until_error_keeps: "\<forall>step\<in>set steps. step_keeps P step \<Longrightarrow> step_keeps P (until_error steps)"
proof (induction steps)
  case Nil
  show ?case by (simp add: step_keeps_def go_return_def)
next
  case (Cons step steps)
  show ?case unfolding step_keeps_def
  proof (intro allI impI)
    fix s
    assume "P s"
    with Cons.prems obtain err s1 where s1: "step s = (Ret err, s1)" "P s1" by (auto elim: step_keepsE)
    from Cons.IH Cons.prems s1(2) obtain err' s2 where "until_error steps s1 = (Ret err', s2)" "P s2"
      by (auto elim: step_keepsE)
    with s1 show "\<exists>err s'. until_error (step # steps) s = (Ret err, s') \<and> P s'"
      by (cases err) (auto simp: go_return_def)
  qed
qed

lemma wrap_error_keeps: "step_keeps P step \<Longrightarrow> step_keeps P (wrap_error msg step)"
  unfolding step_keeps_def wrap_error_def by (metis go_bind_Ret go_return_def)

lemma install_paths [simp]:
  "path_Join [ukfaaswd, ''secrets''] = ''/var/lib/ukfaasd/secrets''"
  "path_Join [''/var/lib/ukfaasd/secrets'', ''basic-auth-password''] = ''/var/lib/ukfaasd/secrets/basic-auth-password''"
  "path_Join [''/var/lib/ukfaasd/secrets'', ''basic-auth-user''] = ''/var/lib/ukfaasd/secrets/basic-auth-user''"
  "path_Join [ukfaaswd, ''docker-compose.yaml''] = ''/var/lib/ukfaasd/docker-compose.yaml''"
  "path_Join [ukfaaswd, ''prometheus.yml''] = ''/var/lib/ukfaasd/prometheus.yml''"
  "path_Join [ukfaaswd, ''resolv.conf''] = ''/var/lib/ukfaasd/resolv.conf''"
  "path_Join [''/usr/local/bin/'', ''ukfaasd''] = ''/usr/local/bin/ukfaasd''"
  by code_simp+

text \<open>What the steps before systemd leave alone: the calls to systemd, and a password that is there.\<close>

lemma host_write_keeps:
  assumes "\<And>h f. P h \<Longrightarrow> P (h\<lparr>host_files := (host_files h)(p \<mapsto> f)\<rparr>)"
  shows "step_keeps P (host_write env p contents)"
  using assms by (auto simp: step_keeps_def host_write_def split: option.split)

lemma ensureWorkingDir_keeps:
  assumes "\<And>h. P h \<Longrightarrow> P (h\<lparr>host_dirs := insert p (host_dirs h)\<rparr>)"
  shows "step_keeps P (ensureWorkingDir env p)"
  using assms by (auto simp: step_keeps_def ensureWorkingDir_def host_MkdirAll_def split: option.split stat_result.split)

lemma makeFile_keeps:
  assumes "\<And>h f. host_files h p = None \<Longrightarrow> P h \<Longrightarrow> P (h\<lparr>host_files := (host_files h)(p \<mapsto> f)\<rparr>)"
  shows "step_keeps P (makeFile env p contents)"
  using assms by (auto simp: step_keeps_def makeFile_def host_Stat_def host_write_def split: option.split if_splits)

lemma cp_keeps:
  assumes "\<And>h f. P h \<Longrightarrow> P (h\<lparr>host_files := (host_files h)(path_Join [dest, source] \<mapsto> f)\<rparr>)"
  shows "step_keeps P (cp env source dest)"
  using host_write_keeps[of P "path_Join [dest, source]" env, OF assms]
  by (auto simp: step_keeps_def cp_def split: option.split)

lemma binExists_keeps: "step_keeps P (binExists env folder name)"
  by (auto simp: step_keeps_def binExists_def Let_def split: stat_result.split)

lemma makeBasicAuthFiles_keeps:
  assumes "\<And>p contents. p \<in> {path_Join [wd, ''basic-auth-password''], path_Join [wd, ''basic-auth-user'']} \<Longrightarrow>
    step_keeps P (makeFile env p contents)"
  shows "step_keeps P (makeBasicAuthFiles env wd)"
proof (cases "he_Generate env")
  case (Inr authPassword)
  have "step_keeps P (until_error
      [makeFile env (path_Join [wd, ''basic-auth-password'']) authPassword,
       makeFile env (path_Join [wd, ''basic-auth-user'']) ''admin''])"
    by (rule until_error_keeps) (use assms in auto)
  with Inr show ?thesis by (simp add: makeBasicAuthFiles_def)
qed (simp add: makeBasicAuthFiles_def step_keeps_def go_return_def)

lemma prepare_keeps_calls: "\<forall>step\<in>set (prepare_steps env). step_keeps (\<lambda>h. systemd_calls h = calls) step"
  unfolding prepare_steps_def
  by (auto intro!: ensureWorkingDir_keeps wrap_error_keeps makeBasicAuthFiles_keeps makeFile_keeps cp_keeps
      binExists_keeps simp del: install_paths)

lemma install_keeps_password:
  "step_keeps (\<lambda>h. host_files h ''/var/lib/ukfaasd/secrets/basic-auth-password'' = Some pw) (runInstall env)"
  unfolding runInstall_def
proof (rule until_error_keeps, rule ballI)
  fix step
  let ?P = "\<lambda>h. host_files h ''/var/lib/ukfaasd/secrets/basic-auth-password'' = Some pw"
  assume "step \<in> set (prepare_steps env @ map (systemd env) install_calls)"
  then consider "step \<in> set (prepare_steps env)" | call where "step = systemd env call" by auto
  then show "step_keeps ?P step"
  proof cases
    case 1
    then show ?thesis unfolding prepare_steps_def
      by (auto intro!: ensureWorkingDir_keeps wrap_error_keeps makeBasicAuthFiles_keeps makeFile_keeps cp_keeps
          binExists_keeps)
  next
    case 2
    then show ?thesis by (simp add: step_keeps_def systemd_def)
  qed
qed

lemma systemd_in_order:
  "\<exists>err h' k. until_error (map (systemd env) calls) h = (Ret err, h') \<and> k \<le> length calls \<and>
    h' = h\<lparr>systemd_calls := systemd_calls h @ take k calls\<rparr> \<and>
    (\<forall>i. Suc i < k \<longrightarrow> he_systemd env (calls ! i) = None) \<and>
    (err = None \<longleftrightarrow> (\<forall>call\<in>set calls. he_systemd env call = None)) \<and> (err = None \<longrightarrow> k = length calls)"
proof (induction calls arbitrary: h)
  case Nil
  show ?case by (intro exI[of _ None] exI[of _ h] exI[of _ 0]) (simp add: go_return_def)
next
  case (Cons call calls)
  let ?h1 = "h\<lparr>systemd_calls := systemd_calls h @ [call]\<rparr>"
  show ?case
  proof (cases "he_systemd env call")
    case (Some e)
    then show ?thesis
      by (intro exI[of _ "Some e"] exI[of _ ?h1] exI[of _ 1]) (simp add: systemd_def go_return_def)
  next
    case None
    from Cons.IH[of ?h1] obtain err h' k where IH:
      "until_error (map (systemd env) calls) ?h1 = (Ret err, h')" "k \<le> length calls"
      "h' = ?h1\<lparr>systemd_calls := systemd_calls ?h1 @ take k calls\<rparr>"
      "\<forall>i. Suc i < k \<longrightarrow> he_systemd env (calls ! i) = None"
      "err = None \<longleftrightarrow> (\<forall>call\<in>set calls. he_systemd env call = None)" "err = None \<longrightarrow> k = length calls" by blast
    have "he_systemd env ((call # calls) ! i) = None" if "Suc i < Suc k" for i
      using that IH(4) None by (cases i) auto
    moreover have "until_error (map (systemd env) (call # calls)) h = (Ret err, h')"
    proof -
      have "systemd env call h = (Ret None, ?h1)" using None by (simp add: systemd_def)
      then show ?thesis using IH(1) by simp
    qed
    ultimately show ?thesis using IH(2,3,5,6) None
      by (intro exI[of _ err] exI[of _ h'] exI[of _ "Suc k"]) auto
  qed
qed

section \<open>Properties of the installation\<close>

lemma prepare_split: "runInstall env = go_bind (until_error (prepare_steps env))
    (\<lambda>err. case err of Some e \<Rightarrow> go_return (Some e) | None \<Rightarrow> until_error (map (systemd env) install_calls))"
  by (simp add: runInstall_def until_error_append)

lemma until_error_last:
  assumes "until_error (steps @ [last_step]) s = (Ret None, s')"
  obtains s1 where "last_step s1 = (Ret None, s')"
  using assms by (auto simp: until_error_append go_bind_def go_return_def split: prod.splits outcome.splits option.splits)

lemma host_Stat_present: "host_Stat env p h = Present \<Longrightarrow> host_files h p \<noteq> None \<or> p \<in> host_dirs h"
  by (auto simp: host_Stat_def split: option.splits if_splits)

lemma binExists_None:
  assumes "binExists env folder name h = (Ret None, h')"
  shows "h' = h \<and> (host_files h (path_Join [folder, name]) \<noteq> None \<or> path_Join [folder, name] \<in> host_dirs h)"
  using assms host_Stat_present[of env "path_Join [folder, name]" h]
  by (auto simp: binExists_def Let_def split: stat_result.splits)

lemma prepare_None_binary:
  assumes "until_error (prepare_steps env) h = (Ret None, h1)"
  shows "host_files h1 ''/usr/local/bin/ukfaasd'' \<noteq> None \<or> ''/usr/local/bin/ukfaasd'' \<in> host_dirs h1"
proof -
  have split: "prepare_steps env = butlast (prepare_steps env) @ [binExists env ''/usr/local/bin/'' ''ukfaasd'']"
    by (simp add: prepare_steps_def)
  from assms obtain s1 where "binExists env ''/usr/local/bin/'' ''ukfaasd'' s1 = (Ret None, h1)"
    by (subst (asm) split) (rule until_error_last)
  from binExists_None[OF this] show ?thesis by simp
qed

text \<open>
  C36: whatever the host answers, the installation returns, and the calls it has made to systemd are
  the first ones of the fixed sequence, each after the success of the one before; there is none unless
  the binary is installed, and the installation succeeds only with all seven.
\<close>

theorem install_calls_in_order:
  shows "\<exists>err h' k. runInstall env h = (Ret err, h') \<and>
    systemd_calls h' = systemd_calls h @ take k install_calls \<and> k \<le> 7 \<and>
    (\<forall>i. Suc i < k \<longrightarrow> he_systemd env (install_calls ! i) = None) \<and>
    (0 < k \<longrightarrow> host_files h' ''/usr/local/bin/ukfaasd'' \<noteq> None \<or> ''/usr/local/bin/ukfaasd'' \<in> host_dirs h') \<and>
    (err = None \<longrightarrow> k = 7)"
proof -
  have "step_keeps (\<lambda>h'. systemd_calls h' = systemd_calls h) (until_error (prepare_steps env))"
    by (rule until_error_keeps) (rule prepare_keeps_calls)
  then obtain err h1 where h1: "until_error (prepare_steps env) h = (Ret err, h1)" "systemd_calls h1 = systemd_calls h"
    by (auto elim: step_keepsE)
  show ?thesis
  proof (cases err)
    case (Some e)
    with h1 show ?thesis
      by (intro exI[of _ "Some e"] exI[of _ h1] exI[of _ 0]) (simp add: prepare_split go_return_def)
  next
    case None
    note binary = prepare_None_binary[OF h1(1)[unfolded None]]
    from systemd_in_order[of env install_calls h1] obtain err' h' k where s:
      "until_error (map (systemd env) install_calls) h1 = (Ret err', h')" "k \<le> length install_calls"
      "h' = h1\<lparr>systemd_calls := systemd_calls h1 @ take k install_calls\<rparr>"
      "\<forall>i. Suc i < k \<longrightarrow> he_systemd env (install_calls ! i) = None" "err' = None \<longrightarrow> k = length install_calls" by blast
    have "runInstall env h = (Ret err', h')" using h1(1) None s(1) by (simp add: prepare_split)
    moreover have "length install_calls = 7" by (simp add: install_calls_def)
    ultimately show ?thesis using s(2-5) h1(2) binary
      by (intro exI[of _ err'] exI[of _ h'] exI[of _ k]) simp
  qed
qed

definition sample_host :: host where
  "sample_host = \<lparr>host_files = [''docker-compose.yaml'' \<mapsto> ''c'', ''prometheus.yml'' \<mapsto> ''p'', ''resolv.conf'' \<mapsto> ''r'',
     ''/usr/local/bin/ukfaasd'' \<mapsto> ''b''], host_dirs = {}, systemd_calls = []\<rparr>"

definition sample_henv :: "string \<Rightarrow> host_env" where
  "sample_henv pw = \<lparr>he_Stat = (\<lambda>_. None), he_MkdirAll = (\<lambda>_. None), he_Open = (\<lambda>_. None), he_Create = (\<lambda>_. None),
     he_Write = (\<lambda>_. None), he_systemd = (\<lambda>_. None), he_Generate = Inr pw\<rparr>"

theorem install_calls_in_order_witness:
  "\<exists>err h'. runInstall ((sample_henv ''pw'')\<lparr>he_systemd := (\<lambda>c. if c = DaemonReload then Some (LibError ''x'') else None)\<rparr>)
      sample_host = (Ret err, h') \<and>
    (\<exists>k\<le>7. systemd_calls h' = take k install_calls \<and> (err = None \<longrightarrow> k = 7))"
  using install_calls_in_order[of "(sample_henv ''pw'')\<lparr>he_systemd := (\<lambda>c. if c = DaemonReload then Some (LibError ''x'') else None)\<rparr>"
      sample_host] by (auto simp: sample_host_def)

text \<open>
  C37: a write of the password that fails in the middle leaves the bytes written so far, and because a
  file that exists is taken as it is, every later installation keeps them: the cut password becomes
  the one of the gateway.
\<close>

theorem cut_password_is_kept:
  assumes failed: "he_Write env ''/var/lib/ukfaasd/secrets/basic-auth-password'' = Some (e, n)"
    and generated: "he_Generate env = Inr pw"
    and answers: "\<forall>p. he_Stat env p = None" "\<forall>p. he_MkdirAll env p = None" "\<forall>p. he_Create env p = None"
    and absent: "host_files h ''/var/lib/ukfaasd/secrets/basic-auth-password'' = None"
      "''/var/lib/ukfaasd/secrets/basic-auth-password'' \<notin> host_dirs h"
  shows "\<exists>h1. runInstall env h = (Ret (Some (Wrapf ''cannot create basic-auth-* files: '' e)), h1) \<and>
    (\<exists>err h2. runInstall env' h1 = (Ret err, h2) \<and>
      host_files h2 ''/var/lib/ukfaasd/secrets/basic-auth-password'' = Some (take n pw))"
proof -
  let ?pwd = "''/var/lib/ukfaasd/secrets/basic-auth-password''"
  have dir: "\<exists>h'. ensureWorkingDir env p h = (Ret None, h') \<and> host_files h' = host_files h \<and>
      (\<forall>q. q \<noteq> p \<longrightarrow> q \<in> host_dirs h' \<longleftrightarrow> q \<in> host_dirs h)" for p h
    using answers by (auto simp: ensureWorkingDir_def host_MkdirAll_def host_Stat_def split: stat_result.split)
  from dir[of "''/var/lib/ukfaasd/secrets''" h] obtain ha where ha:
    "ensureWorkingDir env ''/var/lib/ukfaasd/secrets'' h = (Ret None, ha)" "host_files ha = host_files h"
    "?pwd \<in> host_dirs ha \<longleftrightarrow> ?pwd \<in> host_dirs h" by auto
  from dir[of ukfaasProviderWd ha] obtain hb where hb:
    "ensureWorkingDir env ukfaasProviderWd ha = (Ret None, hb)" "host_files hb = host_files ha"
    "?pwd \<in> host_dirs hb \<longleftrightarrow> ?pwd \<in> host_dirs ha" by (auto simp: ukfaasProviderWd_def)
  let ?h1 = "hb\<lparr>host_files := (host_files hb)(?pwd \<mapsto> take n pw)\<rparr>"
  have "makeFile env ?pwd pw hb = (Ret (Some e), ?h1)"
    using failed answers absent ha hb by (simp add: makeFile_def host_Stat_def host_write_def)
  then have "makeBasicAuthFiles env ''/var/lib/ukfaasd/secrets'' hb = (Ret (Some e), ?h1)"
    using generated by (simp add: makeBasicAuthFiles_def go_return_def)
  then have "wrap_error ''cannot create basic-auth-* files'' (makeBasicAuthFiles env ''/var/lib/ukfaasd/secrets'') hb =
      (Ret (Some (Wrapf ''cannot create basic-auth-* files: '' e)), ?h1)"
    by (simp add: wrap_error_def go_return_def)
  note third = until_error_Some[where step = "wrap_error ''cannot create basic-auth-* files''
      (makeBasicAuthFiles env ''/var/lib/ukfaasd/secrets'')" and s = hb, OF this]
  have "runInstall env h = (Ret (Some (Wrapf ''cannot create basic-auth-* files: '' e)), ?h1)"
    unfolding runInstall_def prepare_steps_def install_paths append.simps
      until_error_None[where step = "ensureWorkingDir env ''/var/lib/ukfaasd/secrets''" and s = h, OF ha(1)]
      until_error_None[where step = "ensureWorkingDir env ukfaasProviderWd" and s = ha, OF hb(1)]
    by (rule third)
  moreover have "\<exists>err h2. runInstall env' ?h1 = (Ret err, h2) \<and> host_files h2 ?pwd = Some (take n pw)"
    using install_keeps_password[of "take n pw" env', unfolded step_keeps_def, rule_format, of ?h1] by simp
  ultimately show ?thesis by (intro exI[of _ ?h1] conjI)
qed

theorem cut_password_is_kept_witness:
  "\<exists>h1. runInstall ((sample_henv ''secret'')\<lparr>he_Write := (\<lambda>p. Some (LibError ''no space left on device'', 3))\<rparr>) sample_host =
      (Ret (Some (Wrapf ''cannot create basic-auth-* files: '' (LibError ''no space left on device''))), h1) \<and>
    (\<exists>err h2. runInstall (sample_henv ''other'') h1 = (Ret err, h2) \<and>
      host_files h2 ''/var/lib/ukfaasd/secrets/basic-auth-password'' = Some ''sec'')"
  using cut_password_is_kept[of "(sample_henv ''secret'')\<lparr>he_Write := (\<lambda>p. Some (LibError ''no space left on device'', 3))\<rparr>"
      "LibError ''no space left on device''" 3 "''secret''" sample_host "sample_henv ''other''"]
  by (simp add: sample_henv_def sample_host_def)

text \<open>
  Started with \<open>CONTAINER_ID\<close> set, \<open>main\<close> asks for the subcommand \<open>collect\<close>, which is not added: when a
  name that is no subcommand is refused, it ends with exit code 1.
\<close>

lemma main_collect_fails:
  assumes "\<forall>cmds a args. a \<notin> set cmds \<longrightarrow> execute cmds (a # args) \<noteq> None"
  shows "\<exists>err. main execute (Some v) os_args = (1, Error err)"
proof -
  have "''collect'' \<notin> set subcommands" by (simp add: subcommands_def)
  with assms obtain err where "execute subcommands [''collect''] = Some err" by blast
  then show ?thesis by (intro exI[of _ err]) (simp add: main_def)
qed

end
