(* ===== verification/Up.thy ===== *)
theory Up
  imports Install
begin

text \<open>
  The command \<open>up\<close> of \<open>cmd/up.go\<close>: the services of the compose file are started under the supervisor,
  and every port they publish gets a proxy. The supervisor, the compose loader, the resolver and the
  proxies are those of faasd: what they answer is an argument, and what is asked of them is recorded.
\<close>

section \<open>The command\<close>

record upConfig =
  composeFilePath :: string
  workingDir :: string

text \<open>The fields of a service and of a port of faasd that the command reads.\<close>

record ServicePort =
  sp_TargetPort :: "32 word"
  sp_Port :: "32 word"
  sp_HostIP :: string

record Service =
  sv_Name :: string
  sv_Ports :: "ServicePort list"

text \<open>The arguments of \<open>NewProxy\<close>; the timeout is in seconds.\<close>

record Proxy =
  px_Upstream :: string
  px_ListenPort :: "32 word"
  px_HostIP :: string
  px_Timeout :: nat

definition parseUpFlags :: "go_error + string \<Rightarrow> go_error + upConfig" where
  "parseUpFlags file_flag =
     (case file_flag of
        Inl err \<Rightarrow> Inl (Wrapf ''can not parse compose file path flag: '' err)
      | Inr p \<Rightarrow> Inr \<lparr>composeFilePath = p, workingDir = ukfaaswd\<rparr>)"

definition loadServiceDefinition ::
  "(string \<Rightarrow> string \<Rightarrow> go_error + 'c) \<Rightarrow> ('c \<Rightarrow> go_error + Service list) \<Rightarrow> upConfig \<Rightarrow> go_error + Service list" where
  "loadServiceDefinition loadComposeFile parseCompose cfg =
     (case loadComposeFile (workingDir cfg) (composeFilePath cfg) of
        Inl err \<Rightarrow> Inl err
      | Inr serviceConfig \<Rightarrow> parseCompose serviceConfig)"

text \<open>The proxy of a port, with the timeout of 60 seconds.\<close>

definition port_proxy :: "string \<Rightarrow> ServicePort \<Rightarrow> Proxy" where
  "port_proxy name port =
     \<lparr>px_Upstream = name @ '':'' @ itoa (unat (sp_TargetPort port)), px_ListenPort = sp_Port port,
      px_HostIP = (if 0 < length (sp_HostIP port) then sp_HostIP port else ''0.0.0.0''), px_Timeout = 60\<rparr>"

definition port_taken :: "32 word \<Rightarrow> go_error" where
  "port_taken listenPort = Errorf (''port '' @ itoa (unat listenPort) @ '' already allocated'')"

text \<open>The two loops over the services and their ports.\<close>

fun allocate_ports ::
  "string \<Rightarrow> ServicePort list \<Rightarrow> (32 word \<rightharpoonup> Proxy) \<Rightarrow> go_error + (32 word \<rightharpoonup> Proxy)" where
  "allocate_ports name [] proxies = Inr proxies"
| "allocate_ports name (port # ports) proxies =
     (let listenPort = sp_Port port in
      if proxies listenPort \<noteq> None then Inl (port_taken listenPort)
      else allocate_ports name ports (proxies(listenPort \<mapsto> port_proxy name port)))"

fun allocate_services :: "Service list \<Rightarrow> (32 word \<rightharpoonup> Proxy) \<Rightarrow> go_error + (32 word \<rightharpoonup> Proxy)" where
  "allocate_services [] proxies = Inr proxies"
| "allocate_services (svc # services) proxies =
     (case allocate_ports (sv_Name svc) (sv_Ports svc) proxies of
        Inl err \<Rightarrow> Inl err
      | Inr proxies' \<Rightarrow> allocate_services services proxies')"

text \<open>What is asked of faasd, in order.\<close>

datatype up_event = SupervisorStart "Service list" | ResolverStart string | ProxyStart Proxy
  | SupervisorRemove "Service list" | SupervisorClose

definition up_event :: "up_event \<Rightarrow> (up_event list, unit) go" where
  "up_event ev = go_modify (\<lambda>evs. evs @ [ev])"

text \<open>
  The answers of faasd, the order in which the map of proxies is ranged over, and whether a signal
  arrives once the proxies are started. The error of removing the services is only printed.
\<close>

record 'c up_env =
  ue_file :: "go_error + string"
  ue_LoadComposeFile :: "string \<Rightarrow> string \<Rightarrow> go_error + 'c"
  ue_ParseCompose :: "'c \<Rightarrow> go_error + Service list"
  ue_NewSupervisor :: "go_error option"
  ue_Start :: "Service list \<Rightarrow> go_error option"
  ue_order :: "(32 word \<rightharpoonup> Proxy) \<Rightarrow> 32 word list"
  ue_signal :: bool

fun start_proxies :: "Proxy list \<Rightarrow> (up_event list, unit) go" where
  "start_proxies [] = go_return ()"
| "start_proxies (v # vs) = go_bind (up_event (ProxyStart v)) (\<lambda>_. start_proxies vs)"

text \<open>The part after the supervisor has started, whose exits all close the supervisor.\<close>

definition serve_proxies :: "'c up_env \<Rightarrow> upConfig \<Rightarrow> Service list \<Rightarrow> (up_event list, go_error option) go" where
  "serve_proxies env cfg services =
     go_bind (up_event (ResolverStart (path_Join [workingDir cfg, ''hosts'']))) (\<lambda>_.
       case allocate_services services Map.empty of
         Inl err \<Rightarrow> go_return (Some err)
       | Inr proxies \<Rightarrow>
           go_bind (start_proxies (map (\<lambda>p. the (proxies p)) (ue_order env proxies))) (\<lambda>_.
             if ue_signal env
             then go_bind (up_event (SupervisorRemove services)) (\<lambda>_. go_return None)
             else (\<lambda>evs. (Blocked, evs))))"

definition runUp :: "'c up_env \<Rightarrow> (up_event list, go_error option) go" where
  "runUp env =
     (case parseUpFlags (ue_file env) of
        Inl err \<Rightarrow> go_return (Some err)
      | Inr cfg \<Rightarrow>
          (case loadServiceDefinition (ue_LoadComposeFile env) (ue_ParseCompose env) cfg of
             Inl err \<Rightarrow> go_return (Some err)
           | Inr services \<Rightarrow>
               (case ue_NewSupervisor env of
                  Some err \<Rightarrow> go_return (Some err)
                | None \<Rightarrow>
                    go_bind (up_event (SupervisorStart services)) (\<lambda>_.
                      case ue_Start env services of
                        Some err \<Rightarrow> go_return (Some err)
                      | None \<Rightarrow> go_defer (\<lambda>evs. evs @ [SupervisorClose]) (serve_proxies env cfg services)))))"

section \<open>The ports against a reference\<close>

text \<open>All the ports with the names of their services, and the first one that is published again.\<close>

definition published :: "Service list \<Rightarrow> (string \<times> ServicePort) list" where
  "published services = concat (map (\<lambda>svc. map (Pair (sv_Name svc)) (sv_Ports svc)) services)"

fun first_repeated :: "'k set \<Rightarrow> 'k list \<Rightarrow> 'k option" where
  "first_repeated seen [] = None"
| "first_repeated seen (k # ks) = (if k \<in> seen then Some k else first_repeated (insert k seen) ks)"

lemma first_repeated_None: "first_repeated seen ks = None \<longleftrightarrow> distinct ks \<and> set ks \<inter> seen = {}"
  by (induction ks arbitrary: seen) auto

lemma first_repeated_append:
  "first_repeated seen (ks @ ks') =
     (case first_repeated seen ks of Some k \<Rightarrow> Some k | None \<Rightarrow> first_repeated (seen \<union> set ks) ks')"
proof (induction ks arbitrary: seen)
  case (Cons k ks)
  have "insert k seen \<union> set ks = seen \<union> set (k # ks)" by auto
  with Cons show ?case by (simp split: option.split)
qed simp

definition proxy_entry :: "string \<times> ServicePort \<Rightarrow> 32 word \<times> Proxy" where
  "proxy_entry = (\<lambda>(name, port). (sp_Port port, port_proxy name port))"

lemma allocate_ports_reference:
  "allocate_ports name ports proxies =
     (case first_repeated (dom proxies) (map sp_Port ports) of
        Some p \<Rightarrow> Inl (port_taken p)
      | None \<Rightarrow> Inr (proxies ++ map_of (map (proxy_entry \<circ> Pair name) ports)))"
proof (induction ports arbitrary: proxies)
  case (Cons port ports)
  show ?case
  proof (cases "sp_Port port \<in> dom proxies")
    case False
    let ?proxies1 = "proxies(sp_Port port \<mapsto> port_proxy name port)"
    have d: "dom ?proxies1 = insert (sp_Port port) (dom proxies)" by simp
    have step: "allocate_ports name (port # ports) proxies = allocate_ports name ports ?proxies1"
      using False by (auto simp: Let_def)
    have "?proxies1 ++ map_of (map (proxy_entry \<circ> Pair name) ports) =
        proxies ++ map_of (map (proxy_entry \<circ> Pair name) (port # ports))"
      if "first_repeated (insert (sp_Port port) (dom proxies)) (map sp_Port ports) = None"
    proof -
      have "sp_Port port \<notin> set (map sp_Port ports)" using that by (auto simp: first_repeated_None)
      then have "map_of (map (proxy_entry \<circ> Pair name) ports) (sp_Port port) = None"
        by (auto simp: map_of_eq_None_iff proxy_entry_def)
      then show ?thesis by (auto simp: fun_eq_iff map_add_def proxy_entry_def split: option.split)
    qed
    with False show ?thesis unfolding step Cons.IH[of ?proxies1] d
      by (cases "first_repeated (insert (sp_Port port) (dom proxies)) (map sp_Port ports)") auto
  qed (auto simp: Let_def)
qed simp

lemma allocate_services_reference:
  "allocate_services services proxies =
     (case first_repeated (dom proxies) (map (sp_Port \<circ> snd) (published services)) of
        Some p \<Rightarrow> Inl (port_taken p)
      | None \<Rightarrow> Inr (proxies ++ map_of (map proxy_entry (published services))))"
proof (induction services arbitrary: proxies)
  case (Cons svc services)
  let ?ports = "sv_Ports svc" and ?rest = "map (sp_Port \<circ> snd) (published services)"
  have ks: "map (sp_Port \<circ> snd) (published (svc # services)) = map sp_Port ?ports @ ?rest"
    by (simp add: published_def comp_def)
  let ?entries = "map (proxy_entry \<circ> Pair (sv_Name svc)) ?ports"
  have es: "map proxy_entry (published (svc # services)) = ?entries @ map proxy_entry (published services)"
    by (simp add: published_def comp_def)
  show ?case
  proof (cases "first_repeated (dom proxies) (map sp_Port ?ports)")
    case (Some p)
    then show ?thesis unfolding ks by (simp add: allocate_ports_reference first_repeated_append)
  next
    case None
    have d: "dom (proxies ++ map_of ?entries) = dom proxies \<union> set (map sp_Port ?ports)"
      by (auto simp: dom_map_of_conv_image_fst proxy_entry_def image_image)
    have "proxies ++ map_of ?entries ++ map_of (map proxy_entry (published services)) =
        proxies ++ map_of (?entries @ map proxy_entry (published services))"
      if "first_repeated (dom proxies \<union> set (map sp_Port ?ports)) ?rest = None"
    proof -
      have "set (map sp_Port ?ports) \<inter> set ?rest = {}" using that by (auto simp: first_repeated_None)
      then have "dom (map_of ?entries) \<inter> dom (map_of (map proxy_entry (published services))) = {}"
        by (force simp: dom_map_of_conv_image_fst proxy_entry_def)
      from map_add_comm[OF this] show ?thesis unfolding map_of_append by (metis map_add_assoc)
    qed
    moreover have step: "allocate_services (svc # services) proxies = allocate_services services (proxies ++ map_of ?entries)"
      using None by (simp add: allocate_ports_reference)
    moreover have "first_repeated (dom proxies) (map sp_Port ?ports @ ?rest) =
        first_repeated (dom proxies \<union> set (map sp_Port ?ports)) ?rest"
      using None by (simp add: first_repeated_append)
    ultimately show ?thesis unfolding ks es step Cons.IH[of "proxies ++ map_of ?entries"] d
      by (cases "first_repeated (dom proxies \<union> set (map sp_Port ?ports)) ?rest") simp_all
  qed
qed (simp add: published_def)

section \<open>Properties of the command\<close>

text \<open>
  C38: the nested loops over the services and their ports give what a pass over the flat list of all
  published ports gives: an error that names the first port published a second time, and otherwise the
  map with one proxy for each port.
\<close>

theorem allocation_is_reference:
  shows "allocate_services services Map.empty =
    (case first_repeated {} (map (sp_Port \<circ> snd) (published services)) of
       Some p \<Rightarrow> Inl (Errorf (''port '' @ itoa (unat p) @ '' already allocated''))
     | None \<Rightarrow> Inr (map_of (map proxy_entry (published services)))) \<and>
    (first_repeated {} (map (sp_Port \<circ> snd) (published services)) = None \<longleftrightarrow>
     distinct (map (sp_Port \<circ> snd) (published services)))"
  using allocate_services_reference[of services Map.empty]
  by (simp add: port_taken_def first_repeated_None cong: option.case_cong)

lemma start_proxies_events: "start_proxies vs evs = (Ret (), evs @ map ProxyStart vs)"
  by (induction vs arbitrary: evs) (simp_all add: go_return_def go_modify_def up_event_def)

text \<open>The proxies in the map of the reference are those of the published ports, each under its port.\<close>

lemma published_proxies:
  assumes distinct: "distinct (map (sp_Port \<circ> snd) (published services))"
  defines "m \<equiv> map_of (map proxy_entry (published services))"
  shows "p \<in> dom m \<Longrightarrow> px_ListenPort (the (m p)) = p"
    and "(\<lambda>p. the (m p)) ` dom m = (\<lambda>(name, port). port_proxy name port) ` set (published services)"
proof -
  have entry: "\<exists>name port. (name, port) \<in> set (published services) \<and> sp_Port port = p \<and> the (m p) = port_proxy name port"
    if "p \<in> dom m" for p
  proof -
    from that obtain v where v: "m p = Some v" by blast
    then have "(p, v) \<in> proxy_entry ` set (published services)" by (auto simp: m_def dest: map_of_SomeD)
    with v show ?thesis by (auto simp: proxy_entry_def split: prod.splits)
  qed
  show "px_ListenPort (the (m p)) = p" if "p \<in> dom m"
    using entry[OF that] by (auto simp: port_proxy_def)
  have "distinct (map fst (map proxy_entry (published services)))"
    using distinct by (simp add: comp_def proxy_entry_def split_def)
  from map_of_is_SomeI[OF this] have entries: "the (m (sp_Port port)) = port_proxy name port \<and> sp_Port port \<in> dom m"
    if "(name, port) \<in> set (published services)" for name port
    using that unfolding m_def by (force simp: proxy_entry_def)
  show "(\<lambda>p. the (m p)) ` dom m = (\<lambda>(name, port). port_proxy name port) ` set (published services)"
  proof (rule subset_antisym; rule image_subsetI)
    fix p
    assume "p \<in> dom m"
    from entry[OF this] obtain name port where "(name, port) \<in> set (published services)"
      "the (m p) = port_proxy name port" by blast
    then show "the (m p) \<in> (\<lambda>(name, port). port_proxy name port) ` set (published services)"
      by (intro image_eqI[of _ _ "(name, port)"]) simp_all
  next
    fix e
    assume "e \<in> set (published services)"
    then show "(case e of (name, port) \<Rightarrow> port_proxy name port) \<in> (\<lambda>p. the (m p)) ` dom m"
      using entries[of "fst e" "snd e"] by (intro image_eqI[of _ _ "sp_Port (snd e)"]) (simp_all add: split_def)
  qed
qed

text \<open>
  C39: once the services are started, a port published twice ends the command with an error that closes
  the supervisor but never removes the services; without one, every port has its proxy started once,
  and the services are removed exactly when a signal arrives, and otherwise the command waits for ever.
\<close>

theorem services_left_running:
  assumes flag: "ue_file env = Inr f"
    and services: "loadServiceDefinition (ue_LoadComposeFile env) (ue_ParseCompose env)
      \<lparr>composeFilePath = f, workingDir = ukfaaswd\<rparr> = Inr services"
    and started: "ue_NewSupervisor env = None" "ue_Start env services = None"
    and order: "\<And>m. range_order m (ue_order env m)"
  shows "(\<not> distinct (map (sp_Port \<circ> snd) (published services)) \<longrightarrow>
      (\<exists>err. runUp env [] = (Ret (Some err),
        [SupervisorStart services, ResolverStart ''/var/lib/ukfaasd/hosts'', SupervisorClose]))) \<and>
    (distinct (map (sp_Port \<circ> snd) (published services)) \<longrightarrow>
      (\<exists>vs. distinct (map px_ListenPort vs) \<and> set vs = (\<lambda>(name, port). port_proxy name port) ` set (published services) \<and>
        runUp env [] =
          (if ue_signal env
           then (Ret None, [SupervisorStart services, ResolverStart ''/var/lib/ukfaasd/hosts''] @ map ProxyStart vs @
                  [SupervisorRemove services, SupervisorClose])
           else (Blocked, [SupervisorStart services, ResolverStart ''/var/lib/ukfaasd/hosts''] @ map ProxyStart vs))))"
proof -
  let ?cfg = "\<lparr>composeFilePath = f, workingDir = ukfaaswd\<rparr>" and ?ports = "map (sp_Port \<circ> snd) (published services)"
  let ?start = "[SupervisorStart services]" and ?resolve = "ResolverStart ''/var/lib/ukfaasd/hosts''"
  have hosts: "path_Join [ukfaaswd, ''hosts''] = ''/var/lib/ukfaasd/hosts''" by code_simp
  have run: "runUp env [] = go_defer (\<lambda>evs. evs @ [SupervisorClose]) (serve_proxies env ?cfg services) ?start"
    using flag services started by (simp add: runUp_def parseUpFlags_def up_event_def go_modify_def)
  show ?thesis
  proof (cases "distinct ?ports")
    case False
    then obtain p where "first_repeated {} ?ports = Some p" using first_repeated_None[of "{}" ?ports] by auto
    then have "allocate_services services Map.empty = Inl (port_taken p)"
      using allocate_services_reference[of services Map.empty] by simp
    then have "runUp env [] = (Ret (Some (port_taken p)), [SupervisorStart services, ?resolve, SupervisorClose])"
      by (simp add: run serve_proxies_def go_defer_def up_event_def go_modify_def go_return_def hosts)
    with False show ?thesis by blast
  next
    case True
    let ?m = "map_of (map proxy_entry (published services))"
    let ?vs = "map (\<lambda>p. the (?m p)) (ue_order env ?m)"
    have alloc: "allocate_services services Map.empty = Inr ?m"
      using True allocate_services_reference[of services Map.empty] first_repeated_None[of "{}" ?ports] by simp
    note order_m = range_orderD[OF order, of ?m]
    have "map px_ListenPort ?vs = ue_order env ?m"
      unfolding map_map by (rule map_idI) (use published_proxies(1)[OF True] order_m(2) in simp)
    then have "distinct (map px_ListenPort ?vs)" using order_m(1) by simp
    moreover have "set ?vs = (\<lambda>(name, port). port_proxy name port) ` set (published services)"
      using published_proxies(2)[OF True] order_m(2) by simp
    moreover have "runUp env [] =
          (if ue_signal env
           then (Ret None, [SupervisorStart services, ?resolve] @ map ProxyStart ?vs @
                  [SupervisorRemove services, SupervisorClose])
           else (Blocked, [SupervisorStart services, ?resolve] @ map ProxyStart ?vs))"
      by (simp add: run serve_proxies_def go_defer_def up_event_def go_modify_def go_return_def hosts alloc start_proxies_events)
    ultimately show ?thesis using True by blast
  qed
qed

definition sample_service :: "string \<Rightarrow> ServicePort list \<Rightarrow> Service" where
  "sample_service name ports = \<lparr>sv_Name = name, sv_Ports = ports\<rparr>"

definition sample_port :: "32 word \<Rightarrow> ServicePort" where
  "sample_port p = \<lparr>sp_TargetPort = 80, sp_Port = p, sp_HostIP = ''''\<rparr>"

text \<open>The answers of faasd in the sample: the compose file loads, and a map is ranged over in order of the ports.\<close>

definition sample_up :: "Service list \<Rightarrow> bool \<Rightarrow> unit up_env" where
  "sample_up services signal = \<lparr>ue_file = Inr ''docker-compose.yaml'', ue_LoadComposeFile = (\<lambda>_ _. Inr ()),
     ue_ParseCompose = (\<lambda>_. Inr services), ue_NewSupervisor = None, ue_Start = (\<lambda>_. None),
     ue_order = (\<lambda>m. sorted_list_of_set (dom m)), ue_signal = signal\<rparr>"

theorem services_left_running_witness:
  "\<exists>err. runUp (sample_up [sample_service ''gateway'' [sample_port 8080], sample_service ''caddy'' [sample_port 8080]] True) [] =
     (Ret (Some err), [SupervisorStart [sample_service ''gateway'' [sample_port 8080], sample_service ''caddy'' [sample_port 8080]],
        ResolverStart ''/var/lib/ukfaasd/hosts'', SupervisorClose])"
proof -
  let ?services = "[sample_service ''gateway'' [sample_port 8080], sample_service ''caddy'' [sample_port 8080]]"
  let ?env = "sample_up ?services True"
  have "ue_file ?env = Inr ''docker-compose.yaml''" by (simp add: sample_up_def)
  moreover have "loadServiceDefinition (ue_LoadComposeFile ?env) (ue_ParseCompose ?env)
      \<lparr>composeFilePath = ''docker-compose.yaml'', workingDir = ukfaaswd\<rparr> = Inr ?services"
    by (simp add: loadServiceDefinition_def sample_up_def)
  moreover have "ue_NewSupervisor ?env = None" "ue_Start ?env ?services = None" by (simp_all add: sample_up_def)
  moreover have "range_order m (ue_order ?env m)" for m
  proof -
    have "finite (dom m)" by (rule finite_subset[OF subset_UNIV]) simp
    then show ?thesis by (simp add: range_order_def sample_up_def)
  qed
  moreover have "\<not> distinct (map (sp_Port \<circ> snd) (published ?services))"
    by (simp add: published_def sample_service_def sample_port_def)
  ultimately show ?thesis by (rule services_left_running[THEN conjunct1, rule_format])
qed

end
