(* ===== verification/NetworkManager.thy ===== *)
theory NetworkManager
  imports Routing
begin

text \<open>
  The registry of network controllers, \<open>pkg/network/manager.go\<close>. A value of the interface
  \<open>NetworkController\<close> is one of the two controllers; its methods are those of the controller it holds,
  and it keeps the contract because both do. What was proved of the machine store for any controller
  then holds whichever one the registry gives out.
\<close>

section \<open>A controller of either kind\<close>

datatype controller_state = InternalState "RandomLoadBalancer InternalNetworkContoller" | CaddyState CaddyController

text \<open>A method call on the controller that is held.\<close>

definition dispatch ::
  "(RandomLoadBalancer InternalNetworkContoller, 'a) go \<Rightarrow> (CaddyController, 'a) go \<Rightarrow> (controller_state, 'a) go" where
  "dispatch int_call caddy_call s =
     (case s of
        InternalState i \<Rightarrow> (case int_call i of (r, i') \<Rightarrow> (r, InternalState i'))
      | CaddyState c \<Rightarrow> (case caddy_call c of (r, c') \<Rightarrow> (r, CaddyState c')))"

definition anyController :: "net_env \<Rightarrow> caddy_env \<Rightarrow> controller_state NetworkController" where
  "anyController env cenv =
     (let i = internalController env randomLB; c = caddyController cenv in
      \<lparr>AddServiceIP = (\<lambda>svc ip. dispatch (AddServiceIP i svc ip) (AddServiceIP c svc ip)),
       DeleteServiceIP = (\<lambda>svc ip. dispatch (DeleteServiceIP i svc ip) (DeleteServiceIP c svc ip)),
       DeleteService = (\<lambda>svc. dispatch (DeleteService i svc) (DeleteService c svc)),
       ResolveServiceEndpoint = (\<lambda>svc. dispatch (ResolveServiceEndpoint i svc) (ResolveServiceEndpoint c svc)),
       AvailableIPs = (\<lambda>svc s. case s of InternalState n \<Rightarrow> AvailableIPs i svc n | CaddyState n \<Rightarrow> AvailableIPs c svc n)\<rparr>)"

section \<open>The registry\<close>

type_synonym NetworkControllerType = string

text \<open>A constructor takes the options and may fail; the one of the caddy controller ignores them.\<close>

type_synonym NetworkControllerConstructor = "RandomLoadBalancer nc_arg list \<Rightarrow> go_error + controller_state"

type_synonym network_registry = "NetworkControllerType \<rightharpoonup> NetworkControllerConstructor"

text \<open>
  The two constructors as values of the interface. The caddy controller starts from what its server
  serves, \<open>server\<close>.
\<close>

definition new_internal :: NetworkControllerConstructor where
  "new_internal opts = map_sum id InternalState (NewInternalNetworkContoller NewRandomLoadBalancer opts)"

definition new_caddy :: "caddy_env \<Rightarrow> routeConfig list \<Rightarrow> NetworkControllerConstructor" where
  "new_caddy cenv server opts = map_sum id CaddyState (NewCaddyController cenv server)"

definition networkControllers :: "caddy_env \<Rightarrow> routeConfig list \<Rightarrow> network_registry" where
  "networkControllers cenv server = [''internal'' \<mapsto> new_internal, ''caddy'' \<mapsto> new_caddy cenv server]"

definition RegisterNetworkController ::
  "NetworkControllerType \<Rightarrow> NetworkControllerConstructor \<Rightarrow> network_registry \<Rightarrow> network_registry" where
  "RegisterNetworkController ncType ncConstructor registry = registry(ncType \<mapsto> ncConstructor)"

definition GetNetworkController ::
  "network_registry \<Rightarrow> NetworkControllerType \<Rightarrow> RandomLoadBalancer nc_arg list \<Rightarrow> go_error + controller_state" where
  "GetNetworkController registry ncType options =
     (case registry ncType of
        Some ncConstruct \<Rightarrow> ncConstruct options
      | None \<Rightarrow> Inl (Errorf (''network Controller '' @ ncType @ '' not found'')))"

section \<open>It keeps the contract\<close>

definition any_pool :: "controller_state \<Rightarrow> string \<Rightarrow> IP list" where
  "any_pool s = (case s of InternalState i \<Rightarrow> listed randomLB i | CaddyState c \<Rightarrow> caddy_pool c)"

definition any_inv :: "controller_state \<Rightarrow> bool" where
  "any_inv s = (case s of InternalState i \<Rightarrow> int_wf randomLB NewRandomLoadBalancer rlb_inv i | CaddyState c \<Rightarrow> caddy_inv c)"

lemmas any_defs = any_pool_def any_inv_def anyController_def dispatch_def Let_def

interpretation any_nc: network_controller "anyController env cenv" any_pool any_inv plain_ip
proof unfold_locales
  fix s svc svc'
  assume inv: "any_inv s"
  show "distinct (any_pool s svc)"
    using inv by (cases s) (auto simp: any_pool_def any_inv_def internal.pool_distinct caddy.pool_distinct)
  show "set (any_pool s svc) \<inter> set (any_pool s svc') = {}" if "svc \<noteq> svc'"
    using inv that internal.pool_disjoint[of _ svc svc'] caddy.pool_disjoint[of _ svc svc']
    by (cases s) (auto simp: any_pool_def any_inv_def)
  show "\<exists>r s'. ResolveServiceEndpoint (anyController env cenv) svc s = (Ret r, s')"
  proof (cases s)
    case (InternalState i)
    with inv internal.resolve_returns[of i env svc] show ?thesis by (auto simp: any_defs)
  next
    case (CaddyState c)
    with inv caddy.resolve_returns[of c cenv svc] show ?thesis by (auto simp: any_defs)
  qed
next
  fix s ip svc
  assume a: "any_inv s" "plain_ip ip" "\<forall>v. ip \<notin> set (any_pool s v)" "Suc (length (any_pool s svc)) < 2 ^ 63"
  show "\<exists>e s'. AddServiceIP (anyController env cenv) svc ip s = (Ret e, s') \<and> any_inv s' \<and>
      any_pool s' = (any_pool s)(svc := any_pool s svc @ [ip])"
  proof (cases s)
    case (InternalState i)
    with a internal.add_pool[of i ip svc env] show ?thesis by (auto simp: any_defs)
  next
    case (CaddyState c)
    with a caddy.add_pool[of c ip svc cenv] show ?thesis by (auto simp: any_defs)
  qed
next
  fix s ip svc
  assume a: "any_inv s" "plain_ip ip" "ip \<in> set (any_pool s svc)"
  show "\<exists>e s'. DeleteServiceIP (anyController env cenv) svc ip s = (Ret e, s') \<and> any_inv s' \<and>
      any_pool s' = (any_pool s)(svc := filter (\<lambda>x. x \<noteq> ip) (any_pool s svc))"
  proof (cases s)
    case (InternalState i)
    with a internal.delete_pool[of i ip svc env] show ?thesis by (auto simp: any_defs)
  next
    case (CaddyState c)
    with a caddy.delete_pool[of c ip svc cenv] show ?thesis by (auto simp: any_defs)
  qed
next
  fix s svc r s'
  assume inv: "any_inv s" and res: "ResolveServiceEndpoint (anyController env cenv) svc s = (r, s')"
  show "any_inv s' \<and> any_pool s' = any_pool s"
  proof (cases s)
    case (InternalState i)
    obtain r' i' where "ResolveServiceEndpoint (internalController env randomLB) svc i = (r', i')" by (rule prod.exhaust)
    with InternalState inv res internal.resolve_pool[of i env svc r' i'] show ?thesis by (auto simp: any_defs)
  next
    case (CaddyState c)
    obtain r' c' where "ResolveServiceEndpoint (caddyController cenv) svc c = (r', c')" by (rule prod.exhaust)
    with CaddyState inv res caddy.resolve_pool[of c cenv svc r' c'] show ?thesis by (auto simp: any_defs)
  qed
next
  fix s svc u s'
  assume inv: "any_inv s" and res: "ResolveServiceEndpoint (anyController env cenv) svc s = (Ret (Inr u), s')"
  show "any_pool s svc \<noteq> []"
  proof (cases s)
    case (InternalState i)
    obtain r' i' where "ResolveServiceEndpoint (internalController env randomLB) svc i = (r', i')" by (rule prod.exhaust)
    with InternalState inv res internal.resolve_registered[of i env svc u i'] show ?thesis by (auto simp: any_defs)
  next
    case (CaddyState c)
    obtain r' c' where "ResolveServiceEndpoint (caddyController cenv) svc c = (r', c')" by (rule prod.exhaust)
    with CaddyState inv res caddy.resolve_registered[of c cenv svc u c'] show ?thesis by (auto simp: any_defs)
  qed
next
  fix s svc n
  assume a: "any_inv s" "length (any_pool s svc) < 2 ^ 63" "AvailableIPs (anyController env cenv) svc s = Inr n"
  show "unat n \<le> length (any_pool s svc)"
  proof (cases s)
    case (InternalState i)
    with a internal.available_le[of i svc env n] show ?thesis by (simp add: any_defs)
  next
    case (CaddyState c)
    with a caddy.available_le[of c svc cenv n] show ?thesis by (simp add: any_defs)
  qed
qed

section \<open>Properties of the registry\<close>

lemma fresh_controller:
  assumes "GetNetworkController (networkControllers cenv server) ncType [] = Inr s"
  shows "any_inv s \<and> any_pool s = (\<lambda>_. []) \<and> (ncType = ''internal'' \<longrightarrow> (\<exists>i. s = InternalState i)) \<and>
    (ncType = ''caddy'' \<longrightarrow> (\<exists>c. s = CaddyState c)) \<and> ncType \<in> {''internal'', ''caddy''}"
proof -
  have new: "\<exists>l. NewRandomLoadBalancer opts = Inr l" for opts by (simp add: NewRandomLoadBalancer_def)
  from int_new_wf[of NewRandomLoadBalancer randomLB rlb_inv] new obtain n where n:
    "NewInternalNetworkContoller NewRandomLoadBalancer [] = Inr n"
    "int_wf randomLB NewRandomLoadBalancer rlb_inv n" "listed randomLB n = (\<lambda>_. [])" by blast
  have "caddy_inv c \<and> caddy_pool c = (\<lambda>_. [])" if "NewCaddyController cenv server = Inr c" for c
    using that by (auto simp: NewCaddyController_def caddy_inv_def caddy_pool_def split: sum.splits)
  with assms n show ?thesis
    by (auto simp: GetNetworkController_def networkControllers_def new_internal_def new_caddy_def any_inv_def any_pool_def
        map_sum_def split: if_splits option.splits sum.splits)
qed

text \<open>
  C1: whichever controller the registry gives out, when every destroy works, a scale-down to at most
  the current number of replicas returns nil with exactly the target number of them, along every
  schedule of its goroutines in which no other goroutine runs between the choice of a machine and its
  mark, a call of the controller being one step; deregistering and stopping the machines may interleave
  in any way. From the service's registered addresses exactly those of the stopped machines have gone, other services keep replicas
  and addresses, and the store is in order and unlocked again. (For the schedules left out,
  \<open>racing_goroutines_stop_one_machine\<close> shows that two goroutines may choose the same machine, and
  \<open>scale_down_keeps_target\<close> that there are never fewer replicas than the target.)
\<close>

theorem any_scale_down_reaches_target:
  fixes replicas :: "64 word"
  assumes "store_ok any_pool any_inv plain_ip m"
    and "\<not> healthChecklock m" and "range_order (machineInstanceMapv2 m) order"
    and "unat replicas \<le> card (replica_set m service)" and "card (replica_set m service) < 2 ^ 64"
    and "\<forall>i. destroy_works (envs i) \<and> valid_order (orders i)" and "choices_kept [] sched"
  shows "\<exists>m'. ScaleMachinesTo (anyController env cenv) envs orders sched order service replicas m = (Ret None, m') \<and>
    card (replica_set m' service) = unat replicas \<and> replica_set m' service \<subseteq> replica_set m service \<and>
    store_ok any_pool any_inv plain_ip m' \<and> \<not> healthChecklock m' \<and>
    set (any_pool (networkController m') service) = set (any_pool (networkController m) service) -
      addresses m (replica_set m service - replica_set m' service) \<and>
    (\<forall>svc. svc \<noteq> service \<longrightarrow> replica_set m' svc = replica_set m svc \<and>
       any_pool (networkController m') svc = any_pool (networkController m) svc)"
  by (rule any_nc.scale_down[OF assms])

theorem any_scale_down_reaches_target_witness:
  "\<exists>ns m'. ScaleMachinesTo (anyController sample_net_env caddy_example_env) (\<lambda>_. sample_menv)
      (\<lambda>_ mp. sorted_list_of_set (dom mp)) [0, 0, 1, 1, 1, 0, 1, 0] [''uid1'', ''uid2''] ''f'' 0 (sample_machines (InternalState ns)) = (Ret None, m') \<and>
    card (replica_set m' ''f'') = 0"
proof (rule sample_internal)
  fix ns
  assume ns: "int_wf randomLB NewRandomLoadBalancer rlb_inv ns"
    "listed randomLB ns = (\<lambda>_. [])(''f'' := [''10.0.0.1'', ''10.0.0.2''])"
  have ok: "store_ok any_pool any_inv plain_ip (sample_machines (InternalState ns))"
    by (rule sample_store_ok) (simp_all add: ns any_pool_def any_inv_def plain_ip_def)
  have free: "\<not> healthChecklock (sample_machines (InternalState ns))" by (simp add: sample_machines_def)
  from any_scale_down_reaches_target[OF ok free sample_order, where replicas = 0 and sched = "[0, 0, 1, 1, 1, 0, 1, 0]" and env = sample_net_env and
      cenv = caddy_example_env and service = "''f''" and envs = "\<lambda>_. sample_menv" and
      orders = "\<lambda>_ mp. sorted_list_of_set (dom mp)"]
  have "\<exists>m'. ScaleMachinesTo (anyController sample_net_env caddy_example_env) (\<lambda>_. sample_menv)
      (\<lambda>_ mp. sorted_list_of_set (dom mp)) [0, 0, 1, 1, 1, 0, 1, 0] [''uid1'', ''uid2''] ''f'' 0 (sample_machines (InternalState ns)) = (Ret None, m') \<and>
      card (replica_set m' ''f'') = unat (0 :: 64 word)"
    using sample_destroy_works sorted_order_valid by auto
  then show ?thesis by auto
qed

end
