(* ===== verification/ProviderCommand.thy ===== *)
theory ProviderCommand
  imports NetworkManager Handlers Install Logs
begin

text \<open>
  The commands \<open>provider\<close> and \<open>test\<close> of \<open>cmd\<close>, which put the parts together: the files they write, the
  stores and the controller they start with, the table of handlers, and the life of a provider as the
  requests it answers and the steps of its background goroutines.
\<close>

section \<open>Starting\<close>

text \<open>The settings the command reads, and the answers it gets while it starts.\<close>

record start_env =
  se_pull_policy :: "go_error + string"
  se_ReadFromEnv :: "go_error + string"
  se_Getwd :: "go_error + string"
  se_host :: host_env
  se_clientErr :: "go_error option"
  se_handlerErr :: "go_error option"
  se_registry :: network_registry

definition hosts_contents :: string where
  "hosts_contents = ''127.0.0.1'' @ [CHR 0x09] @ ''localhost'' @ [CHR 0x5C] @ ''n127.0.0.1'' @ [CHR 0x09] @ ''ukfaas.dev''"

definition resolv_contents :: string where
  "resolv_contents = ''nameserver 8.8.8.8''"

text \<open>
  A started provider: the stores, with the controller in the machine store, and what the handlers were
  made with. \<open>Sock\<close>, the socket of containerd, is only handed to the libraries.
\<close>

record started =
  st_provider :: "controller_state Provider"
  st_secrets :: string
  st_alwaysPull :: bool

text \<open>The stores and the controller, with which the commands \<open>provider\<close> and \<open>test\<close> begin.\<close>

definition new_stores :: "start_env \<Rightarrow> go_error + controller_state Provider" where
  "new_stores env =
     (case NewFunctionStore (se_clientErr env) (se_handlerErr env) of
        Inl err \<Rightarrow> Inl err
      | Inr f \<Rightarrow>
          (case GetNetworkController (se_registry env) ''internal'' [] of
             Inl err \<Rightarrow> Inl err
           | Inr controller \<Rightarrow> Inr \<lparr>fStore = f, mStore = NewMachineStore controller\<rparr>))"

definition runProvider :: "start_env \<Rightarrow> (host, go_error + started) go" where
  "runProvider env =
     (case se_pull_policy env of
        Inl flagErr \<Rightarrow> go_return (Inl flagErr)
      | Inr pullPolicy \<Rightarrow>
          (let alwaysPull = (pullPolicy = ''Always'') in
           case se_ReadFromEnv env of
             Inl err \<Rightarrow> go_return (Inl err)
           | Inr sock \<Rightarrow>
               (case se_Getwd env of
                  Inl err \<Rightarrow> go_return (Inl err)
                | Inr wd \<Rightarrow>
                    go_bind (host_write (se_host env) (path_Join [wd, ''hosts'']) hosts_contents) (\<lambda>writeHostsErr.
                      case writeHostsErr of
                        Some e \<Rightarrow> go_return (Inl (Wrapf ''cannot write hosts file: '' e))
                      | None \<Rightarrow>
                          go_bind (host_write (se_host env) (path_Join [wd, ''resolv.conf'']) resolv_contents) (\<lambda>writeResolvErr.
                            case writeResolvErr of
                              Some e \<Rightarrow> go_return (Inl (Wrapf ''cannot write resolv.conf file: '' e))
                            | None \<Rightarrow>
                                (case new_stores env of
                                   Inl err \<Rightarrow> go_return (Inl err)
                                 | Inr p \<Rightarrow>
                                     go_return (Inr \<lparr>st_provider = p, st_secrets = path_Join [wd, ''secrets''],
                                       st_alwaysPull = alwaysPull\<rparr>)))))))"

section \<open>Serving\<close>

text \<open>
  A request, by the handler of the table it goes to, and what the outside world answers while it is
  handled. The handler of \<open>/healthz\<close> does nothing.
\<close>

datatype request = DeployFunction "FunctionDeployment request_body" | DeleteFunctionReq "DeleteFunctionRequest request_body"
  | FunctionLister "string \<rightharpoonup> string" | FunctionStatusReq string "string \<rightharpoonup> string"
  | ScaleFunction "ScaleServiceRequest request_body" | UpdateFunctionReq "FunctionDeployment request_body"
  | FunctionProxy string | Health | Info | ListNamespacesReq | LogsReq log_Request

record request_env =
  rq_ns :: namespace_service
  rq_stat :: "string \<Rightarrow> go_error option"
  rq_fenv :: fstore_env
  rq_menv :: machine_env
  rq_scaling1 :: scaling
  rq_scaling2 :: scaling
  rq_forder :: "string list"
  rq_orders :: "string \<Rightarrow> string list"
  rq_order :: range_of
  rq_stop_first :: bool
  rq_journal :: journal_env

datatype answer = Responded response | Resolved "go_error + URL" | Logged "go_error + string list"

definition answer_with :: "('a \<Rightarrow> answer) \<Rightarrow> ('s, 'a) go \<Rightarrow> ('s, answer) go" where
  "answer_with f call = go_bind call (\<lambda>x. go_return (f x))"

text \<open>The table of handlers.\<close>

fun handle_request ::
  "'n NetworkController \<Rightarrow> string \<Rightarrow> string \<Rightarrow> string \<Rightarrow> request_env \<Rightarrow> request \<Rightarrow> ('n Provider, answer) go" where
  "handle_request nc secrets version commit env (FunctionProxy name) =
     answer_with Resolved (Resolve nc (rq_menv env) (rq_order env) name)"
| "handle_request nc secrets version commit env (DeleteFunctionReq body) =
     answer_with Responded (MakeDeleteHandler nc (rq_ns env) (rq_scaling1 env) body)"
| "handle_request nc secrets version commit env (DeployFunction body) =
     answer_with Responded (MakeDeployHandler (rq_ns env) (rq_stat env) (rq_fenv env) (rq_menv env) secrets body)"
| "handle_request nc secrets version commit env (FunctionLister query) =
     answer_with Responded (MakeReadHandler nc (rq_ns env) (rq_forder env) (rq_orders env) query)"
| "handle_request nc secrets version commit env (FunctionStatusReq service query) =
     answer_with Responded (MakeFunctionStatusHandler nc (rq_ns env) (rq_orders env) service query)"
| "handle_request nc secrets version commit env (ScaleFunction body) =
     answer_with Responded (MakeReplicaUpdateHandler nc (rq_ns env) (rq_menv env) (rq_scaling1 env) body)"
| "handle_request nc secrets version commit env (UpdateFunctionReq body) =
     answer_with Responded (MakeUpdateHandler (rq_stop_first env) nc (rq_ns env) (rq_fenv env) (rq_menv env)
       (rq_scaling1 env) (rq_scaling2 env) body)"
| "handle_request nc secrets version commit env Health = go_return (Responded [])"
| "handle_request nc secrets version commit env Info = answer_with Responded (MakeInfoHandler version commit)"
| "handle_request nc secrets version commit env ListNamespacesReq =
     answer_with Responded (MakeNamespacesLister (rq_ns env))"
| "handle_request nc secrets version commit env (LogsReq req) = go_return (Logged (Query (rq_journal env) req))"

text \<open>
  The life of a provider: requests, visits of the machine health check, passes of the health checks of
  the controller, whatever they do to it, and goroutines whose watchdog answers. A handler that panics is recovered by the server, and one that blocks keeps its effects.
\<close>

inductive provider_step :: "'n NetworkController \<Rightarrow> string \<Rightarrow> string \<Rightarrow> string \<Rightarrow> 'n Provider \<Rightarrow> 'n Provider \<Rightarrow> bool"
  for nc secrets version commit where
  Request: "handle_request nc secrets version commit env req p = (r, p') \<Longrightarrow>
    provider_step nc secrets version commit p p'"
| HealthCheck: "on_mStore (check_machine nc menv key) p = (r, p') \<Longrightarrow> provider_step nc secrets version commit p p'"
| ControllerPass: "on_mStore (on_controller (pass :: ('n, unit) go)) p = (r, p') \<Longrightarrow> provider_step nc secrets version commit p p'"
| Ready: "on_mStore (machine_ready nc answers waiting) p = (r, p') \<Longrightarrow> provider_step nc secrets version commit p p'"

inductive provider_steps :: "'n NetworkController \<Rightarrow> string \<Rightarrow> string \<Rightarrow> string \<Rightarrow> 'n Provider \<Rightarrow> 'n Provider \<Rightarrow> bool"
  for nc secrets version commit where
  Start: "provider_steps nc secrets version commit p p"
| Step: "provider_steps nc secrets version commit p p' \<Longrightarrow> provider_step nc secrets version commit p' p'' \<Longrightarrow>
    provider_steps nc secrets version commit p p''"

section \<open>The command \<open>test\<close>\<close>

text \<open>
  The request of the command; its two maps are allocated when it is built, here as the references
  \<open>labels\<close> and \<open>annotations\<close>.
\<close>

definition test_request :: "mapref \<Rightarrow> mapref \<Rightarrow> string \<Rightarrow> FunctionDeployment" where
  "test_request labels annotations img =
     \<lparr>fd_Service = ''test-func'', fd_Image = img, fd_Namespace = ''openfaas-fn'', fd_EnvProcess = '''',
      fd_EnvVars = Map.empty, fd_Constraints = [], fd_Secrets = [], fd_Labels = Some labels,
      fd_Annotations = Some annotations, fd_Limits = None, fd_Requests = None, fd_ReadOnlyRootFilesystem = False\<rparr>"

text \<open>
  One new map of the process. The maps of the request come first, then what the machine store allocates.
\<close>

definition new_map :: "('n MachineStore, mapref) go" where
  "new_map m = (Ret (heap_next m), m\<lparr>map_heap := (map_heap m)(heap_next m := Map.empty), heap_next := Suc (heap_next m)\<rparr>)"

text \<open>
  What happens while the command waits for ENTER and for a signal is left to the goroutines: the steps
  \<open>while_waiting1\<close> and \<open>while_waiting2\<close>.
\<close>

record 'n test_env =
  te_fenv :: fstore_env
  te_menv1 :: machine_env
  te_menv2 :: machine_env
  te_scaling1 :: scaling
  te_scaling2 :: scaling
  while_waiting1 :: "('n Provider, unit) go"
  while_waiting2 :: "('n Provider, unit) go"

definition test_body :: "'n NetworkController \<Rightarrow> 'n test_env \<Rightarrow> string list \<Rightarrow> ('n Provider, go_error option) go" where
  "test_body nc env args =
     (if args = [] then go_panic ''index out of range''
      else
        go_bind (on_mStore new_map) (\<lambda>labels. go_bind (on_mStore new_map) (\<lambda>annotations.
          let req = test_request labels annotations (args ! 0) in
          go_bind (on_fStore (AddFunction (te_fenv env) req)) (\<lambda>added.
            case added of
              Inl err \<Rightarrow> go_return (Some err)
            | Inr function_md \<Rightarrow>
                until_error
                  [on_mStore (NewMachine (te_menv1 env) function_md),
                   go_bind (while_waiting1 env) (\<lambda>_. on_mStore (scale_to nc (te_scaling1 env) (fd_Service req) 0)),
                   on_mStore (NewMachine (te_menv2 env) function_md),
                   go_bind (while_waiting2 env) (\<lambda>_. on_mStore (stop_all nc (te_scaling2 env) (fd_Service req)))]))))"

definition runTest ::
  "start_env \<Rightarrow> controller_state NetworkController \<Rightarrow> controller_state test_env \<Rightarrow> string list \<Rightarrow>
   go_error + (go_error option outcome \<times> controller_state Provider)" where
  "runTest env nc tenv args = map_sum id (test_body nc tenv args) (new_stores env)"

lemma test_without_image_panics:
  assumes "new_stores env = Inr p"
  shows "runTest env nc tenv [] = Inr (Panic ''index out of range'', p)"
  using assms by (simp add: runTest_def test_body_def go_panic_def)

section \<open>What every request keeps of the function store\<close>

definition keeps_functions :: "(FunctionStore \<Rightarrow> bool) \<Rightarrow> ('n Provider, 'a) go \<Rightarrow> bool" where
  "keeps_functions P call \<longleftrightarrow> (\<forall>p r p'. call p = (r, p') \<longrightarrow> P (fStore p) \<longrightarrow> P (fStore p'))"

named_theorems keeps \<open>calls that keep a property of the function store\<close>

lemma keeps_return [keeps]: "keeps_functions P (go_return x)"
  by (simp add: keeps_functions_def go_return_def)

lemma keeps_read [keeps]: "keeps_functions P (\<lambda>p. (f p, p))"
  by (simp add: keeps_functions_def)

lemma keeps_bind [keeps]:
  assumes "keeps_functions P call" and "\<And>x. keeps_functions P (f x)"
  shows "keeps_functions P (go_bind call f)"
  unfolding keeps_functions_def
proof (intro allI impI)
  fix p r p'
  assume run: "go_bind call f p = (r, p')" and P: "P (fStore p)"
  obtain r1 p1 where c: "call p = (r1, p1)" by (rule prod.exhaust)
  with assms(1) P have P1: "P (fStore p1)" unfolding keeps_functions_def by blast
  show "P (fStore p')"
  proof (cases r1)
    case (Ret x)
    with c run have "f x p1 = (r, p')" by simp
    with assms(2)[of x] P1 show ?thesis unfolding keeps_functions_def by blast
  qed (use c run P1 in auto)
qed

lemma keeps_mStore [keeps]: "keeps_functions P (on_mStore call)"
  by (auto simp: keeps_functions_def on_mStore_def split: prod.splits)

lemma keeps_fStore:
  assumes "\<And>f. P f \<Longrightarrow> P (snd (call f))"
  shows "keeps_functions P (on_fStore call)"
  using assms by (fastforce simp: keeps_functions_def on_fStore_def split: prod.splits)

lemma keeps_if:
  assumes "keeps_functions P call1" and "keeps_functions P call2"
  shows "keeps_functions P (\<lambda>p. if b p then call1 p else call2 p)"
  using assms by (auto simp: keeps_functions_def)

lemma keeps_sum:
  assumes "\<And>e. keeps_functions P (call1 e)" and "\<And>x. keeps_functions P (call2 x)"
  shows "keeps_functions P (\<lambda>p. case s p of Inl e \<Rightarrow> call1 e p | Inr x \<Rightarrow> call2 x p)"
  using assms unfolding keeps_functions_def by (metis sum.case_eq_if)

lemma keeps_option:
  assumes "keeps_functions P call1" and "\<And>x. keeps_functions P (call2 x)"
  shows "keeps_functions P (\<lambda>p. case s p of None \<Rightarrow> call1 p | Some x \<Rightarrow> call2 x p)"
  using assms unfolding keeps_functions_def by (metis option.case_eq_if)

lemma keeps_body [keeps]: "(\<And>req. keeps_functions P (handle req)) \<Longrightarrow> keeps_functions P (with_body body handle)"
  by (auto simp: with_body_def keeps split: option.split sum.split)

lemma keeps_namespace [keeps]: "keeps_functions P handle \<Longrightarrow> keeps_functions P (with_namespace ns n handle)"
  by (auto simp: with_namespace_def keeps split: option.split)

lemma keeps_inv [keeps]:
  "keeps_functions fstore_inv (on_fStore (AddFunction env req))"
  "keeps_functions fstore_inv (on_fStore (UpdateFunction env req))"
  "keeps_functions fstore_inv (on_fStore (DeleteFunction name))"
  by (rule keeps_fStore, simp add: fstore_inv_add fstore_inv_update fstore_inv_delete)+

lemma replace_keeps [keeps]: "keeps_functions P (replace_machines stop_first nc menv sc name md)"
  by (simp add: replace_machines_def keeps)

lemma deploy_keeps [keeps]: "keeps_functions fstore_inv (MakeDeployHandler ns stat fenv menv mount body)"
  unfolding MakeDeployHandler_def Let_def
  by (rule keeps_body, rule keeps_namespace) (auto simp: keeps split: option.split sum.split intro!: keeps_bind)

lemma delete_keeps [keeps]: "keeps_functions fstore_inv (MakeDeleteHandler nc ns sc body)"
  unfolding MakeDeleteHandler_def Let_def
  by (rule keeps_body, rule keeps_namespace, rule keeps_if) (auto simp: keeps intro!: keeps_bind)

lemma scale_keeps [keeps]: "keeps_functions fstore_inv (MakeReplicaUpdateHandler nc ns menv sc body)"
  unfolding MakeReplicaUpdateHandler_def Let_def
  by (rule keeps_body, rule keeps_namespace, rule keeps_sum) (auto simp: keeps intro!: keeps_bind keeps_if)

lemma update_keeps [keeps]: "keeps_functions fstore_inv (MakeUpdateHandler stop_first nc ns fenv menv sc1 sc2 body)"
  unfolding MakeUpdateHandler_def Let_def
  by (rule keeps_body, rule keeps_namespace, rule keeps_sum)
    (auto simp: keeps split: sum.split option.split prod.split intro!: keeps_bind)

lemma resolve_keeps [keeps]: "keeps_functions fstore_inv (Resolve nc menv order_of name)"
  unfolding Resolve_def[abs_def] Let_def
  by (rule keeps_sum) (auto simp: keeps split: option.split intro!: keeps_bind keeps_if)

lemma read_keeps [keeps]:
  "keeps_functions P (MakeReadHandler nc ns forder orders query)"
  "keeps_functions P (MakeFunctionStatusHandler nc ns orders service query)"
  by (auto simp: keeps_functions_def MakeReadHandler_def MakeFunctionStatusHandler_def split: option.splits sum.splits)

lemma request_keeps: "keeps_functions fstore_inv (handle_request nc secrets version commit env req)"
  by (cases req) (auto simp: answer_with_def keeps MakeInfoHandler_def MakeNamespacesLister_def intro!: keeps_bind)

lemma provider_step_keeps: "provider_step nc secrets version commit p p' \<Longrightarrow> fstore_inv (fStore p) \<Longrightarrow> fstore_inv (fStore p')"
  by (induction rule: provider_step.induct)
    (use request_keeps keeps_mStore[of fstore_inv] in \<open>unfold keeps_functions_def, blast\<close>)+

lemma provider_steps_keep: "provider_steps nc secrets version commit p p' \<Longrightarrow> fstore_inv (fStore p) \<Longrightarrow> fstore_inv (fStore p')"
  by (induction rule: provider_steps.induct) (auto dest: provider_step_keeps)

section \<open>Properties of the commands\<close>

lemma host_write_None:
  "host_write env p contents h = (Ret None, h') \<Longrightarrow> h' = h\<lparr>host_files := (host_files h)(p \<mapsto> contents)\<rparr>"
  by (auto simp: host_write_def split: option.splits prod.splits)

lemma runProvider_done:
  assumes "runProvider env h = (Ret (Inr st), h')"
  obtains wd pullPolicy where "se_Getwd env = Inr wd" and "se_pull_policy env = Inr pullPolicy"
    and "new_stores env = Inr (st_provider st)"
    and "st = \<lparr>st_provider = st_provider st, st_secrets = path_Join [wd, ''secrets''], st_alwaysPull = (pullPolicy = ''Always'')\<rparr>"
    and "h' = h\<lparr>host_files := (host_files h)(path_Join [wd, ''hosts''] \<mapsto> hosts_contents,
      path_Join [wd, ''resolv.conf''] \<mapsto> resolv_contents)\<rparr>"
  using assms
  by (auto simp: runProvider_def Let_def go_return_def elim!: go_bind_RetE dest!: host_write_None
      split: sum.splits option.splits)

lemma new_stores_cases:
  assumes "new_stores env = Inr p"
  obtains f s where "NewFunctionStore None None = Inr f" and "GetNetworkController (se_registry env) ''internal'' [] = Inr s"
    and "p = \<lparr>fStore = f, mStore = NewMachineStore s\<rparr>"
  using assms by (auto simp: new_stores_def NewFunctionStore_def split: sum.splits option.splits)

text \<open>
  C40: a provider that has started has an empty function store, no machine, both mutexes free, and the
  internal controller with no address registered; it keeps the contract of a network controller. The
  hosts file it has written is a single line that gives the name \<open>localhost\n127.0.0.1\<close> to the loopback
  address: the raw string of the code has a backslash and an n where a line break is meant.
\<close>

theorem provider_starts:
  assumes "se_registry env = networkControllers cenv server"
    and "runProvider env h = (Ret (Inr st), h')"
    and dir: "se_Getwd env = Inr (abs_path ps)" "ps \<noteq> []" "\<forall>p\<in>set ps. path_name p"
  shows "functionMetaData (fStore (st_provider st)) = Map.empty \<and>
    store_ok any_pool any_inv plain_ip (mStore (st_provider st)) \<and>
    machineInstanceMapv2 (mStore (st_provider st)) = Map.empty \<and>
    \<not> ms_lock (mStore (st_provider st)) \<and> \<not> healthChecklock (mStore (st_provider st)) \<and>
    (\<exists>i. networkController (mStore (st_provider st)) = InternalState i) \<and>
    any_pool (networkController (mStore (st_provider st))) = (\<lambda>_. []) \<and>
    (\<exists>line. host_files h' (abs_path (ps @ [''hosts''])) = Some line \<and> split_on (CHR 0x0A) line = [line] \<and>
       split_on (CHR 0x09) line = [''127.0.0.1'', ''localhost'' @ [CHR 0x5C] @ ''n127.0.0.1'', ''ukfaas.dev''])"
proof -
  from assms(2) obtain wd where wd: "se_Getwd env = Inr wd" and stores: "new_stores env = Inr (st_provider st)"
    and files: "h' = h\<lparr>host_files := (host_files h)(path_Join [wd, ''hosts''] \<mapsto> hosts_contents,
      path_Join [wd, ''resolv.conf''] \<mapsto> resolv_contents)\<rparr>"
    by (rule runProvider_done)
  from stores obtain f s where p: "NewFunctionStore None None = Inr f"
    "GetNetworkController (networkControllers cenv server) ''internal'' [] = Inr s"
    "st_provider st = \<lparr>fStore = f, mStore = NewMachineStore s\<rparr>"
    using assms(1) by (metis new_stores_cases)
  note fresh = fresh_controller[OF p(2)]
  have "store_ok any_pool any_inv plain_ip (NewMachineStore s)"
    using fresh by (simp add: store_ok_def NewMachineStore_def keyed_def routed_def)
  moreover have "split_on (CHR 0x0A) hosts_contents = [hosts_contents]"
    "split_on (CHR 0x09) hosts_contents = [''127.0.0.1'', ''localhost'' @ [CHR 0x5C] @ ''n127.0.0.1'', ''ukfaas.dev'']"
    by (simp_all add: hosts_contents_def)
  moreover have "host_files h' (abs_path (ps @ [''hosts''])) = Some hosts_contents"
  proof -
    have "path_name ''hosts''" "path_name ''resolv.conf''" by (simp_all add: path_name_def)
    then have "path_Join [abs_path ps, ''hosts''] = abs_path (ps @ [''hosts''])"
      "path_Join [abs_path ps, ''resolv.conf''] = abs_path (ps @ [''resolv.conf''])"
      using path_Join_name[OF dir(2,3)] by simp_all
    moreover have "abs_path (ps @ [''hosts'']) \<noteq> abs_path (ps @ [''resolv.conf''])"
      by (simp add: abs_path_def join_slash_append dir(2))
    ultimately show ?thesis using files wd dir(1) by simp
  qed
  ultimately show ?thesis using fresh p
    by (auto simp: NewFunctionStore_def NewMachineStore_def)
qed

definition sample_start :: start_env where
  "sample_start = \<lparr>se_pull_policy = Inr ''Always'', se_ReadFromEnv = Inr ''/run/containerd/containerd.sock'',
     se_Getwd = Inr ''/srv'', se_host = sample_henv ''pw'', se_clientErr = None, se_handlerErr = None,
     se_registry = networkControllers caddy_example_env []\<rparr>"

lemma sample_started: "\<exists>st h'. runProvider sample_start sample_host = (Ret (Inr st), h')"
proof -
  have wr: "host_write (sample_henv ''pw'') p contents h = (Ret None, h\<lparr>host_files := (host_files h)(p \<mapsto> contents)\<rparr>)"
    for p contents h by (simp add: host_write_def sample_henv_def)
  have "\<exists>p. new_stores sample_start = Inr p"
    by (simp add: new_stores_def sample_start_def NewFunctionStore_def GetNetworkController_def networkControllers_def
        new_internal_def NewInternalNetworkContoller_def)
  then show ?thesis by (auto simp: runProvider_def sample_start_def wr go_return_def)
qed

theorem provider_starts_witness:
  "\<exists>st h'. runProvider sample_start sample_host = (Ret (Inr st), h') \<and>
    functionMetaData (fStore (st_provider st)) = Map.empty \<and> \<not> ms_lock (mStore (st_provider st))"
proof -
  from sample_started obtain st h' where run: "runProvider sample_start sample_host = (Ret (Inr st), h')" by blast
  have "se_registry sample_start = networkControllers caddy_example_env []" by (simp add: sample_start_def)
  moreover have "se_Getwd sample_start = Inr (abs_path [''srv''])" "\<forall>p\<in>set [''srv'']. path_name p"
    by (simp_all add: sample_start_def abs_path_def path_name_def)
  ultimately show ?thesis using provider_starts[OF _ run, of caddy_example_env "[]" "[''srv'']"] run by blast
qed

text \<open>
  C4: at any time in the life of a provider, after any requests, machine health checks and answers of
  watchdogs, with any controller and whatever the libraries answer, a function is stored under the
  service name of its deployment, its package is a target and the stored image of a digest, and its
  directory is that of the digest and was created.
\<close>

theorem provider_functions_wellformed:
  assumes "runProvider env h = (Ret (Inr st), h')"
    and "provider_steps nc secrets version commit (st_provider st) p"
    and "functionMetaData (fStore p) svc = Some md"
  shows "fd_Service (md_FunctionDeployment md) = svc \<and> pack_target (md_Package md) \<noteq> None \<and>
    md_StorageDir md \<in> fstore_dirs (fStore p) \<and>
    (\<exists>digest. imageStore (fStore p) digest = Some (md_Package md) \<and>
       md_StorageDir md = path_Join [OCIDirectory, digest])"
proof -
  from assms(1) have "new_stores env = Inr (st_provider st)" by (rule runProvider_done)
  then obtain f s where "NewFunctionStore None None = Inr f" "st_provider st = \<lparr>fStore = f, mStore = NewMachineStore s\<rparr>"
    by (rule new_stores_cases)
  then have "fstore_inv (fStore (st_provider st))" by (simp add: fstore_inv_new)
  with provider_steps_keep[OF assms(2)] have inv: "fstore_inv (fStore p)" by blast
  from fstore_invD(1,2)[OF inv assms(3)] fstore_inv_function[OF inv assms(3)] show ?thesis by blast
qed

theorem provider_functions_wellformed_witness:
  "\<exists>st h' p. runProvider sample_start sample_host = (Ret (Inr st), h') \<and>
    provider_steps (anyController sample_net_env caddy_example_env) '''' '''' '''' (st_provider st) p \<and>
    md_StorageDir (sample_md ''f'') \<in> fstore_dirs (fStore p)"
proof -
  from sample_started obtain st h' where run: "runProvider sample_start sample_host = (Ret (Inr st), h')" by blast
  let ?p = "st_provider st" and ?nc = "anyController sample_net_env caddy_example_env"
  let ?req = "sample_req ''f'' ''app:v1''" and ?fenv = "sample_env (Inr (sample_pack ''app:v1'')) ''sha256:ab''"
  have "NewFunctionStore None None = Inr sample_store" by (simp add: NewFunctionStore_def sample_store_def)
  with run have "fStore ?p = sample_store" by (auto elim!: runProvider_done new_stores_cases)
  then have added: "on_fStore (AddFunction ?fenv ?req) ?p = (Ret (Inr (sample_md ''f'')), ?p\<lparr>fStore := sample_full ''f''\<rparr>)"
    by (simp add: on_fStore_def sample_add)
  obtain env :: request_env where env: "rq_fenv env = ?fenv" by (metis request_env.select_convs(3))
  obtain r p' where step: "handle_request ?nc '''' '''' '''' env (DeployFunction (Some (Inr ?req))) ?p = (r, p')"
    by (rule prod.exhaust)
  let ?rest = "\<lambda>env. go_bind (on_mStore (NewMachine (rq_menv env) (sample_md ''f'')))
      (\<lambda>err. case err of Some e \<Rightarrow> go_return [HttpError (Error e) StatusBadRequest] | None \<Rightarrow> go_return [WriteHeader StatusOK])"
  have "keeps_functions (\<lambda>f. f = sample_full ''f'') (answer_with Responded (?rest env))"
    unfolding answer_with_def by (auto intro!: keeps_bind simp: keeps split: option.split)
  moreover have "MakeDeployHandler (rq_ns env) (rq_stat env) ?fenv (rq_menv env) '''' (Some (Inr ?req)) ?p =
      ?rest env (?p\<lparr>fStore := sample_full ''f''\<rparr>)"
  proof -
    have "getRequestNamespace (fd_Namespace ?req) = DefaultFunctionNamespace" "fd_Secrets ?req = []"
      by (simp_all add: sample_req_def getRequestNamespace_def DefaultFunctionNamespace_def)
    then show ?thesis using added by (simp add: MakeDeployHandler_def with_namespace_None)
  qed
  then have "answer_with Responded (?rest env) (?p\<lparr>fStore := sample_full ''f''\<rparr>) = (r, p')"
    using step by (simp add: env answer_with_def go_bind_def)
  ultimately have full: "fStore p' = sample_full ''f''" unfolding keeps_functions_def by fastforce
  have steps: "provider_steps ?nc '''' '''' '''' ?p p'"
    using provider_steps.Start provider_step.Request[OF step] by (rule provider_steps.Step)
  have "functionMetaData (fStore p') ''f'' = Some (sample_md ''f'')" unfolding full by (simp add: sample_full_def)
  from provider_functions_wellformed[OF run steps this] run steps show ?thesis by blast
qed

end
