(* ===== verification/Spec2Isabelle.thy ===== *)
theory Spec2Isabelle
  imports InternalController Caddy CaddyTools FunctionStore Routing Handlers LegacyDeploy Logs Install Up
    NetworkManager ProviderCommand
begin

text \<open>
  A model of ukfaas, an OpenFaaS provider that runs functions as unikernels, and what was proved of it.

  \<^bold>\<open>The program.\<close> The provider is one process. Its HTTP handlers (\<open>pkg/provider/handlers\<close>) work on two
  stores: the function store (\<open>pkg/store/function.go\<close>) keeps the deployments by service name and the
  pulled images by digest; the machine store (\<open>pkg/store/machine.go\<close>) keeps the running machines and
  their interfaces, creates, clones and destroys them, and checks their health. A network controller
  (\<open>pkg/api/network\<close>) knows the addresses of the machines of each service: the internal one balances in
  the process (\<open>pkg/network/internal\<close>), the caddy one rewrites the routes of a caddy server
  (\<open>pkg/network/caddy\<close>); a registry gives out one of the two (\<open>pkg/network/manager.go\<close>). Deploying adds
  a function and creates a machine; a goroutine waits for the watchdog of the machine and registers its
  address; an invocation resolves the service to an address; scaling clones or destroys machines in
  concurrent goroutines, and destroying deregisters the address first. The commands (\<open>cmd\<close>) install
  the daemon, start the services of a compose file, start the provider, and run a test.

  \<^bold>\<open>Style of the model.\<close> A Go call is a function from a state to an outcome and a state (theory GoPrelude):
  it returns, panics, or blocks for ever on a mutex or a channel; the state it leaves is kept in each
  case. Errors are values: \<open>go_error\<close> for the error, \<open>None\<close> for nil, \<open>Inl\<close> for a failed call with a
  result. What libraries, the hypervisor, the file system and remote servers answer is an argument (the
  records whose names end in \<open>env\<close>), so every error branch is a branch of the model. Go maps are partial
  functions, and the order of \<open>range\<close> is an argument that visits each key once (\<open>range_order\<close>). Counters are
  64-bit words. Functions keep their Go names, with a prefix (\<open>int_\<close>, \<open>rlb_\<close>, \<open>caddy_\<close>, \<open>ms_\<close>) where
  several types have a method of one name.

  \<^bold>\<open>The theories.\<close>
  \<^item> GoPrelude: outcomes, state passing, errors, maps and their order, decimal printing, splitting, the
    constants of \<open>pkg/constants.go\<close>. GoPath: \<open>path.Clean\<close> and \<open>path.Join\<close>, with what they do to absolute
    paths and to paths that start with dots.
  \<^item> LoadBalancer: \<open>loadbalancer.go\<close> and \<open>random.go\<close>; locale \<open>load_balancer\<close>, interpreted by the random one.
  \<^item> NetworkApi: the interface \<open>NetworkController\<close> as a record of methods and its contract as the locale
    \<open>network_controller\<close>. InternalController and Caddy model the two implementations and interpret the
    locale; CaddyTools is the translation between service names and URLs. NetworkManager models the
    registry and the interface value it gives out, which keeps the contract because both controllers do.
  \<^item> FunctionStore: every operation of \<open>function.go\<close>, the invariant of its states, and the refinement of an
    abstract registry (locale \<open>function_registry\<close>).
  \<^item> MachineStore: data and operations of \<open>machine.go\<close> and the frame lemmas; MachineCreation: creating and
    cloning, on success and on each failure; Scaling: the goroutines of \<open>ScaleMachinesTo\<close>, which make their
    steps (choosing a machine, marking it, deregistering, stopping; or choosing, reading, creating) in the
    order of a schedule, and a scale-down as a step relation; Routing: the store together with a
    controller, proved once in the locale \<open>network_controller\<close> and used for each interpretation.
  \<^item> Handlers: the HTTP handlers over both stores and any controller. LegacyDeploy: the function \<open>Deploy\<close>
    of \<open>deploy.go\<close>, which only its test calls.
  \<^item> Logs: \<open>pkg/logs/requester.go\<close>, with the part of \<open>time.Format\<close>, \<open>strconv.ParseInt\<close> and the JSON decoder
    it uses.
  \<^item> Install (\<open>root.go\<close>, \<open>main.go\<close>, \<open>install.go\<close>, the files of \<open>up.go\<close>), Up (\<open>up.go\<close>), ProviderCommand
    (\<open>provider.go\<close>, \<open>test.go\<close>): the commands; the last one has the table of handlers and the life of a
    provider as a step relation over requests, machine health checks and answers of watchdogs.

  \<^bold>\<open>What is shown.\<close>
  \<^item> Machines and addresses: scaling down reaches its target exactly and deregisters what it stops,
    whichever controller is used, under every schedule that keeps the choices of its goroutines
    (\<open>choices_kept\<close>: none runs between the choice and the mark of another) and when the destroys work; when
    two goroutines choose one machine, a replica too many is left; no interleaving goes below the
    target; scaling up reaches its target from one replica on under every schedule, when the creations
    work, and does nothing from none; a pass of the health check retires exactly the machines reported as
    stopped; what creating a machine stores; which failure
    keeps the mutex; that clones write the labels into the annotations of their source.
  \<^item> Controllers: the bookkeeping of the internal one in every history of registrations of new addresses
    and any other calls, with what deregistrations of unknown addresses cost; resolution as the first
    healthy draw among at most five (or the size) draws, the health loop that never ends; the routes of
    the caddy server in step with the controller; the round trip of service names through URLs.
  \<^item> Functions: refinement of the registry, well-formedness of every stored function at any time in the
    life of a provider, images pulled once, what failed deployments and updates leave behind.
  \<^item> Handlers: that a deployed function resolves once its watchdog answers and not before; which requests
    change what; that updates never update, that a failed deployment blocks its retry, that secrets of
    other namespaces are reachable.
  \<^item> Logs: entries of a request parse back to it, where instants overflow, that the stream is the longest
    good prefix of the entries, and the start of the interval read back through the calendar.
  \<^item> Commands: the calls to systemd are a prefix of a fixed sequence, a password cut by a failed write is
    kept, ports are allocated as by one pass over all of them, what a started provider holds.

  \<^bold>\<open>Bounds and termination.\<close> Loops over lists are recursive on them. The resolution loop of the internal
  controller ends after the larger of five and the number of instances (its measure); the loop that waits for
  a watchdog and the health loop of the internal controller are partial functions, whose value \<open>None\<close> is not
  returning: the first returns exactly when some attempt is answered, the second never. The health
  loop of the machine store is given its passes, as many as the context allows before it is cancelled.
  Theorems about counts assume fewer than \<open>2 ^ 63\<close> addresses, or fewer than \<open>2 ^ 64\<close> machines, as their
  statements say. A schedule of goroutines is followed by four steps for each, the most that one makes,
  so all of them end or block (\<open>goroutines_end\<close>).

  \<^bold>\<open>Not modelled.\<close> Vendored libraries; what they answer is an argument. Log output. The HTTP server, the
  proxy and the routing of requests to handlers, which belong to the faas-provider library; requests
  are handled one at a time, except for the goroutines of one scaling call, whose calls of the network
  controller are one step each: the internal controller takes no lock, and a mix of the map accesses of
  two of its calls is left out. \<open>logErrOut\<close>, which copies an
  error stream to the log. File modes. The flags and help texts of cobra. \<open>deploy_test.go\<close>, which needs
  a live host.
\<close>

end
